theory Spec2Isabelle
  imports Complex_Main "HOL-Library.Word"
begin

unbundle bit_operations_syntax

section \<open>Machine integers and the pins of the board\<close>

text \<open>
  The sketches run on a 32-bit ESP32-C3: \<open>uint8_t\<close>, \<open>uint16_t\<close> and
  \<open>uint32_t\<close> are words; an arithmetic expression over \<open>uint16_t\<close> operands
  is evaluated in \<open>int\<close> after integer promotion (its values stay far below
  \<open>2^31\<close> here, so it is written on \<open>int\<close>) and converted back, modulo the
  width, where it is stored or passed.
\<close>

type_synonym u8 = "8 word"
type_synonym u16 = "16 word"
type_synonym u32 = "32 word"
type_synonym i16 = "16 word"

definition to_u8 :: "int \<Rightarrow> u8" where
  "to_u8 v = word_of_int v"

definition to_u16 :: "int \<Rightarrow> u16" where
  "to_u16 v = word_of_int v"

definition to_u32 :: "int \<Rightarrow> u32" where
  "to_u32 v = word_of_int v"

definition to_i16 :: "int \<Rightarrow> i16" where
  "to_i16 v = word_of_int v"

text \<open>C's integer division truncates towards zero.\<close>

definition c_div :: "int \<Rightarrow> int \<Rightarrow> int" where
  "c_div a b = sgn a * sgn b * (\<bar>a\<bar> div \<bar>b\<bar>)"

text \<open>The \<^verbatim>\<open>#define\<close>s of the sketches: GPIO numbers and the panel size.\<close>

abbreviation (input) TFT_SCLK :: int where "TFT_SCLK \<equiv> 6"
abbreviation (input) TFT_MOSI :: int where "TFT_MOSI \<equiv> 7"
abbreviation (input) TFT_CS :: int where "TFT_CS \<equiv> 10"
abbreviation (input) TFT_DC :: int where "TFT_DC \<equiv> 2"
abbreviation (input) TFT_RST :: int where "TFT_RST \<equiv> - 1"
abbreviation (input) TFT_BL :: int where "TFT_BL \<equiv> 3"
abbreviation (input) TFT_WIDTH :: int where "TFT_WIDTH \<equiv> 240"
abbreviation (input) TFT_HEIGHT :: int where "TFT_HEIGHT \<equiv> 240"

section \<open>Bus transport\<close>

text \<open>
  What a sketch does to the outside world is the sequence of its pin writes, SPI byte
  transfers and delays. Every driver function returns the events it performs, in order.
\<close>

datatype level = LOW | HIGH

datatype bus_event = DigitalWrite int level | Transfer u8 | Delay nat

type_synonym bus = "bus_event list"

definition tft_send_cmd :: "u8 \<Rightarrow> bus" where
  "tft_send_cmd cmd =
     [DigitalWrite TFT_DC LOW, DigitalWrite TFT_CS LOW, Transfer cmd, DigitalWrite TFT_CS HIGH]"

definition tft_send_data :: "u8 \<Rightarrow> bus" where
  "tft_send_data data =
     [DigitalWrite TFT_DC HIGH, DigitalWrite TFT_CS LOW, Transfer data, DigitalWrite TFT_CS HIGH]"

section \<open>Addressing and fill (DigitalMeters.ino)\<close>

definition tft_set_addr_window :: "u16 \<Rightarrow> u16 \<Rightarrow> u16 \<Rightarrow> u16 \<Rightarrow> bus" where
  "tft_set_addr_window x y w h =
     tft_send_cmd 0x2A @
     tft_send_data (to_u8 (drop_bit 8 (uint x))) @
     tft_send_data (to_u8 (uint x AND 0xFF)) @
     tft_send_data (to_u8 (drop_bit 8 (uint x + uint w - 1))) @
     tft_send_data (to_u8 ((uint x + uint w - 1) AND 0xFF)) @
     tft_send_cmd 0x2B @
     tft_send_data (to_u8 (drop_bit 8 (uint y))) @
     tft_send_data (to_u8 (uint y AND 0xFF)) @
     tft_send_data (to_u8 (drop_bit 8 (uint y + uint h - 1))) @
     tft_send_data (to_u8 ((uint y + uint h - 1) AND 0xFF)) @
     tft_send_cmd 0x2C"

text \<open>
  The pixel loop \<^verbatim>\<open>for (uint32_t i = 0; i < w * h; i++)\<close>: the bound is the product
  of the promoted operands, compared as \<open>uint32_t\<close>.
\<close>

function fill_loop :: "u8 \<Rightarrow> u8 \<Rightarrow> u32 \<Rightarrow> u32 \<Rightarrow> bus" where
  "fill_loop hi lo i n =
     (if i < n then [Transfer hi, Transfer lo] @ fill_loop hi lo (i + 1) n else [])"
  by pat_completeness auto
termination
proof (relation "measure (\<lambda>(hi, lo, i, n). unat n - unat i)")
  show "wf (measure (\<lambda>(hi, lo, i, n). unat n - unat i))"
    by simp
next
  fix hi lo :: u8 and i n :: u32
  assume "i < n"
  then have "unat i < unat n"
    by (simp add: word_less_nat_alt)
  moreover from \<open>i < n\<close> have "unat (i + 1) = unat i + 1"
    by (metis (no_types, lifting) add.commute add_0 inc_i inc_le
        unat_plus_simple unsigned_0 unsigned_1 word_gt_0)
  ultimately show "((hi, lo, i + 1, n), (hi, lo, i, n)) \<in> measure (\<lambda>(hi, lo, i, n). unat n - unat i)"
    by simp
qed

declare fill_loop.simps [simp del]

definition tft_fill_rect :: "u16 \<Rightarrow> u16 \<Rightarrow> u16 \<Rightarrow> u16 \<Rightarrow> u16 \<Rightarrow> bus" where
  "tft_fill_rect x y w h color =
     (let hi = to_u8 (drop_bit 8 (uint color));
          lo = to_u8 (uint color AND 0xFF)
      in tft_set_addr_window x y w h @
         [DigitalWrite TFT_DC HIGH, DigitalWrite TFT_CS LOW] @
         fill_loop hi lo 0 (to_u32 (uint w * uint h)) @
         [DigitalWrite TFT_CS HIGH])"

definition tft_draw_pixel :: "u16 \<Rightarrow> u16 \<Rightarrow> u16 \<Rightarrow> bus" where
  "tft_draw_pixel x y color =
     (if uint x \<ge> TFT_WIDTH \<or> uint y \<ge> TFT_HEIGHT then []
      else tft_fill_rect x y 1 1 color)"

section \<open>Line rasterizer (DigitalMeters.ino)\<close>

text \<open>
  The loop of \<open>tft_draw_line\<close>, \<^verbatim>\<open>for (; x0 <= x1; x0++)\<close>, on the variables as the
  sketch declares them: \<open>x0\<close>, \<open>y0\<close>, \<open>x1\<close> are \<open>uint16_t\<close>; \<open>dx\<close>, \<open>dy\<close>,
  \<open>err\<close>, \<open>ystep\<close> are \<open>int16_t\<close>, read with \<open>sint\<close>. Each assignment computes
  in \<open>int\<close> and converts to the variable's width. The counter \<open>x0\<close> wraps from 65535
  to 0, so with \<open>x1 = 65535\<close> the loop never ends: the result is an option, \<open>None\<close>
  when the call does not return.
\<close>

partial_function (option) line_loop ::
  "bool \<Rightarrow> u16 \<Rightarrow> u16 \<Rightarrow> u16 \<Rightarrow> i16 \<Rightarrow> i16 \<Rightarrow> i16 \<Rightarrow> i16 \<Rightarrow> u16 \<Rightarrow> bus option" where
  "line_loop steep x0 y0 x1 dx dy err ystep color =
     (if uint x0 \<le> uint x1 then
        (let px = (if steep then tft_draw_pixel y0 x0 color else tft_draw_pixel x0 y0 color);
             err1 = to_i16 (sint err - sint dy);
             y0' = (if sint err1 < 0 then to_u16 (uint y0 + sint ystep) else y0);
             err2 = (if sint err1 < 0 then to_i16 (sint err1 + sint dx) else err1)
         in Option.bind (line_loop steep (to_u16 (uint x0 + 1)) y0' x1 dx dy err2 ystep color)
              (\<lambda>rest. Some (px @ rest)))
      else Some [])"

declare line_loop.simps [code]

text \<open>
  \<open>tft_draw_line\<close>. The two swaps go through an \<open>int16_t\<close> temporary; converting a
  \<open>uint16_t\<close> to \<open>int16_t\<close> and back changes nothing, so they are plain swaps.
\<close>

definition tft_draw_line :: "u16 \<Rightarrow> u16 \<Rightarrow> u16 \<Rightarrow> u16 \<Rightarrow> u16 \<Rightarrow> bus option" where
  "tft_draw_line x0 y0 x1 y1 color =
     (let steep = (\<bar>uint y1 - uint y0\<bar> > \<bar>uint x1 - uint x0\<bar>);
          (x0, y0, x1, y1) = (if steep then (y0, x0, y1, x1) else (x0, y0, x1, y1));
          (x0, y0, x1, y1) = (if uint x0 > uint x1 then (x1, y1, x0, y0) else (x0, y0, x1, y1));
          dx = to_i16 (uint x1 - uint x0);
          dy = to_i16 \<bar>uint y1 - uint y0\<bar>;
          err = to_i16 (c_div (sint dx) 2);
          ystep = (if uint y0 < uint y1 then to_i16 1 else to_i16 (- 1))
      in line_loop steep x0 y0 x1 dx dy err ystep color)"

text \<open>
  The reference the line rasterizer is compared with, following the specification's words:
  Bresenham's algorithm in its integer error-accumulator form, on unbounded integers and
  without clipping. Transpose \<open>x\<close> and \<open>y\<close> when the slope is steep, swap the
  endpoints so that \<open>x0 \<le> x1\<close>, then walk \<open>x\<close> from \<open>x0\<close> to \<open>x1\<close>; the
  accumulator starts at half of \<open>dx\<close>, loses \<open>dy\<close> at each step, and when it falls
  below zero \<open>y\<close> moves by \<open>\<plusminus>1\<close> and the accumulator gains \<open>dx\<close>.
\<close>

function bres_walk ::
  "bool \<Rightarrow> int \<Rightarrow> int \<Rightarrow> int \<Rightarrow> int \<Rightarrow> int \<Rightarrow> int \<Rightarrow> int \<Rightarrow> (int \<times> int) list" where
  "bres_walk steep x y x1 dx dy err ystep =
     (if x \<le> x1 then
        (if steep then (y, x) else (x, y)) #
        (if err - dy < 0
         then bres_walk steep (x + 1) (y + ystep) x1 dx dy (err - dy + dx) ystep
         else bres_walk steep (x + 1) y x1 dx dy (err - dy) ystep)
      else [])"
  by pat_completeness auto
termination
  by (relation "measure (\<lambda>(steep, x, y, x1, dx, dy, err, ystep). nat (x1 + 1 - x))") auto

declare bres_walk.simps [simp del]

definition bresenham_reference :: "int \<times> int \<Rightarrow> int \<times> int \<Rightarrow> (int \<times> int) list" where
  "bresenham_reference a b =
     (let (x0, y0) = a; (x1, y1) = b;
          steep = (\<bar>y1 - y0\<bar> > \<bar>x1 - x0\<bar>);
          (x0, y0, x1, y1) = (if steep then (y0, x0, y1, x1) else (x0, y0, x1, y1));
          (x0, y0, x1, y1) = (if x0 > x1 then (x1, y1, x0, y0) else (x0, y0, x1, y1));
          dx = x1 - x0;
          dy = \<bar>y1 - y0\<bar>
      in bres_walk steep x0 y0 x1 dx dy (dx div 2) (if y0 < y1 then 1 else - 1))"


section \<open>Circle rasterizer (DigitalMeters.ino)\<close>

text \<open>
  The loop \<^verbatim>\<open>while (x >= y)\<close> of \<open>tft_draw_circle\<close>. \<open>x\<close>, \<open>y\<close> and \<open>err\<close>
  are \<open>int\<close>; with a radius below \<open>2^16\<close> they stay far inside 32 bits. Each argument
  of \<open>tft_draw_pixel\<close> is computed in \<open>int\<close> from the \<open>uint16_t\<close> centre and converted
  to the \<open>uint16_t\<close> parameter. The second \<^verbatim>\<open>if\<close> reads the \<open>err\<close> the first one
  may have changed, and each update of \<open>err\<close> uses the coordinate just changed.
\<close>

function circle_loop :: "u16 \<Rightarrow> u16 \<Rightarrow> u16 \<Rightarrow> int \<Rightarrow> int \<Rightarrow> int \<Rightarrow> bus" where
  "circle_loop x0 y0 color x y err =
     (if x \<ge> y then
        tft_draw_pixel (to_u16 (uint x0 + x)) (to_u16 (uint y0 + y)) color @
        tft_draw_pixel (to_u16 (uint x0 + y)) (to_u16 (uint y0 + x)) color @
        tft_draw_pixel (to_u16 (uint x0 - y)) (to_u16 (uint y0 + x)) color @
        tft_draw_pixel (to_u16 (uint x0 - x)) (to_u16 (uint y0 + y)) color @
        tft_draw_pixel (to_u16 (uint x0 - x)) (to_u16 (uint y0 - y)) color @
        tft_draw_pixel (to_u16 (uint x0 - y)) (to_u16 (uint y0 - x)) color @
        tft_draw_pixel (to_u16 (uint x0 + y)) (to_u16 (uint y0 - x)) color @
        tft_draw_pixel (to_u16 (uint x0 + x)) (to_u16 (uint y0 - y)) color @
        (let y' = (if err \<le> 0 then y + 1 else y);
             err1 = (if err \<le> 0 then err + (2 * y' + 1) else err);
             x' = (if err1 > 0 then x - 1 else x);
             err2 = (if err1 > 0 then err1 - (2 * x' + 1) else err1)
         in circle_loop x0 y0 color x' y' err2)
      else [])"
  by pat_completeness auto
termination
  by (relation "measure (\<lambda>(x0, y0, color, x, y, err). nat (x - y + 1))") (auto simp add: Let_def)

declare circle_loop.simps [simp del]

definition tft_draw_circle :: "u16 \<Rightarrow> u16 \<Rightarrow> u16 \<Rightarrow> u16 \<Rightarrow> bus" where
  "tft_draw_circle x0 y0 radius color = circle_loop x0 y0 color (uint radius) 0 0"

text \<open>
  The same loop without the bus: the offsets from the centre that the loop hands to
  \<open>tft_draw_pixel\<close>, in order, as the integers they are before the centre is added and
  the sum is converted. These are the points the circle is meant to have.
\<close>

function circle_walk :: "int \<Rightarrow> int \<Rightarrow> int \<Rightarrow> (int \<times> int) list" where
  "circle_walk x y err =
     (if x \<ge> y then
        [(x, y), (y, x), (- y, x), (- x, y), (- x, - y), (- y, - x), (y, - x), (x, - y)] @
        (let y' = (if err \<le> 0 then y + 1 else y);
             err1 = (if err \<le> 0 then err + (2 * y' + 1) else err);
             x' = (if err1 > 0 then x - 1 else x);
             err2 = (if err1 > 0 then err1 - (2 * x' + 1) else err1)
         in circle_walk x' y' err2)
      else [])"
  by pat_completeness auto
termination
  by (relation "measure (\<lambda>(x, y, err). nat (x - y + 1))") (auto simp add: Let_def)

declare circle_walk.simps [simp del]

section \<open>Glyph rendering (DigitalMeters.ino)\<close>

text \<open>The table \<open>font5x7\<close>: five column bytes for each of the digits 0 to 9.\<close>

definition font5x7 :: "u8 list list" where
  "font5x7 =
     [[0x3E, 0x51, 0x49, 0x45, 0x3E],
      [0x00, 0x42, 0x7F, 0x40, 0x00],
      [0x42, 0x61, 0x51, 0x49, 0x46],
      [0x21, 0x41, 0x45, 0x4B, 0x31],
      [0x18, 0x14, 0x12, 0x7F, 0x10],
      [0x27, 0x45, 0x45, 0x45, 0x39],
      [0x3C, 0x4A, 0x49, 0x49, 0x30],
      [0x01, 0x71, 0x09, 0x05, 0x03],
      [0x36, 0x49, 0x49, 0x49, 0x36],
      [0x06, 0x49, 0x49, 0x29, 0x1E]]"

text \<open>
  \<open>tft_draw_digit\<close>: the two counting loops run over the columns 0 to 4 and the rows
  0 to 6; a set bit of the column byte is one filled cell of \<open>sz\<close> by \<open>sz\<close> pixels
  (\<open>sz\<close> is the parameter \<open>size\<close> of the sketch).
\<close>

definition tft_draw_digit :: "u16 \<Rightarrow> u16 \<Rightarrow> u8 \<Rightarrow> u16 \<Rightarrow> u8 \<Rightarrow> bus" where
  "tft_draw_digit x y digit color sz =
     (if uint digit > 9 then []
      else concat (map (\<lambda>col.
             let line = font5x7 ! unat digit ! col
             in concat (map (\<lambda>row.
                  if uint line AND push_bit row 1 \<noteq> 0
                  then tft_fill_rect (to_u16 (uint x + int col * uint sz))
                         (to_u16 (uint y + int row * uint sz))
                         (to_u16 (uint sz)) (to_u16 (uint sz)) color
                  else []) [0..<7])) [0..<5]))"

text \<open>
  \<open>tft_draw_number\<close> formats the number with \<^verbatim>\<open>sprintf(buffer, "%.*f", decimals, number)\<close>
  into \<^verbatim>\<open>char buffer[20]\<close> and then walks the buffer. \<open>sprintf\<close> is the C library's and
  is taken as the parameter \<open>sprintf_f\<close>, which gives the characters written before the
  terminating NUL. Text of 20 characters or more does not fit the buffer with its NUL:
  that is a fault of the call. A walk over a C string stops at the NUL (or where the list
  ends); \<open>pos\<close> is the \<open>int\<close> that counts the glyph cells used so far.
\<close>

datatype fault = BufferOverflow

fun number_loop :: "u16 \<Rightarrow> u16 \<Rightarrow> u16 \<Rightarrow> u8 \<Rightarrow> int \<Rightarrow> string \<Rightarrow> bus" where
  "number_loop x y color sz pos [] = []"
| "number_loop x y color sz pos (ch # rest) =
     (if ch = CHR 0x00 then []
      else if of_char ch \<ge> (of_char CHR ''0'' :: int) \<and> of_char ch \<le> (of_char CHR ''9'' :: int) then
        tft_draw_digit (to_u16 (uint x + pos * 6 * uint sz)) y
          (to_u8 (of_char ch - of_char CHR ''0'')) color sz @
        number_loop x y color sz (pos + 1) rest
      else if ch = CHR ''.'' then
        tft_fill_rect (to_u16 (uint x + pos * 6 * uint sz)) (to_u16 (uint y + 6 * uint sz))
          (to_u16 (uint sz)) (to_u16 (uint sz)) color @
        number_loop x y color sz (pos + 1) rest
      else number_loop x y color sz pos rest)"

definition tft_draw_number ::
  "(u8 \<Rightarrow> 'f \<Rightarrow> string) \<Rightarrow> u16 \<Rightarrow> u16 \<Rightarrow> 'f \<Rightarrow> u8 \<Rightarrow> u16 \<Rightarrow> u8 \<Rightarrow> fault + bus" where
  "tft_draw_number sprintf_f x y number decimals color sz =
     (let buffer = sprintf_f decimals number
      in if length buffer \<ge> 20 then Inl BufferOverflow
         else Inr (number_loop x y color sz 0 buffer))"

fun string_loop :: "u16 \<Rightarrow> u16 \<Rightarrow> u16 \<Rightarrow> u8 \<Rightarrow> int \<Rightarrow> string \<Rightarrow> bus" where
  "string_loop x y color sz pos [] = []"
| "string_loop x y color sz pos (ch # rest) =
     (if ch = CHR 0x00 then []
      else if of_char ch \<ge> (of_char CHR ''A'' :: int) \<and> of_char ch \<le> (of_char CHR ''Z'' :: int) then
        tft_fill_rect (to_u16 (uint x + pos * 6 * uint sz)) y
          (to_u16 (4 * uint sz)) (to_u16 (7 * uint sz)) color @
        string_loop x y color sz (pos + 1) rest
      else if ch = CHR '' '' then string_loop x y color sz (pos + 1) rest
      else string_loop x y color sz pos rest)"

definition tft_draw_string :: "u16 \<Rightarrow> u16 \<Rightarrow> string \<Rightarrow> u16 \<Rightarrow> u8 \<Rightarrow> bus" where
  "tft_draw_string x y str color sz = string_loop x y color sz 0 str"

text \<open>
  The glyph set of the specification: the digits, the decimal point, the uppercase
  letters and the space.
\<close>

definition supported_glyph :: "char \<Rightarrow> bool" where
  "supported_glyph ch =
     ((of_char CHR ''0'' \<le> (of_char ch :: int) \<and> (of_char ch :: int) \<le> of_char CHR ''9'') \<or>
      ch = CHR ''.'' \<or>
      (of_char CHR ''A'' \<le> (of_char ch :: int) \<and> (of_char ch :: int) \<le> of_char CHR ''Z'') \<or>
      ch = CHR '' '')"



section \<open>Arc rasterizer (the smooth-gauge sketch)\<close>

text \<open>
  \<open>drawArc\<close> draws through the graphics library: what it does is the sequence of its
  calls \<^verbatim>\<open>gfx->drawPixel(x, y, color)\<close>. Its angles are \<open>float\<close>. The floating-point
  arithmetic of the platform is not code of the repository and is taken as parameters:
  \<^item> a finite \<open>float\<close> is the real number it denotes, and finite floats compare as
    these numbers do;
  \<^item> \<open>rnd\<close> rounds an exact result to the float that stores it, so \<^verbatim>\<open>endAngle += 360\<close>
    is \<open>rnd (endAngle + 360)\<close> and \<^verbatim>\<open>angle += 2\<close> is \<open>rnd (angle + 2)\<close>;
  \<^item> \<open>arc_x cx r angle\<close> is \<^verbatim>\<open>cx + r * cos(angle * PI / 180)\<close> converted to \<open>int\<close>,
    and \<open>arc_y\<close> the same with \<open>sin\<close>.
  The inner loop need not end (a large angle plus 2 may round to itself), so the result is
  an option.
\<close>

datatype gfx_call = DrawPixel int int u16

partial_function (option) arc_angle_loop ::
  "(real \<Rightarrow> real) \<Rightarrow> (int \<Rightarrow> int \<Rightarrow> real \<Rightarrow> int) \<Rightarrow> (int \<Rightarrow> int \<Rightarrow> real \<Rightarrow> int) \<Rightarrow>
   int \<Rightarrow> int \<Rightarrow> int \<Rightarrow> real \<Rightarrow> real \<Rightarrow> u16 \<Rightarrow> gfx_call list option" where
  "arc_angle_loop rnd arc_x arc_y cx cy rt angle endAngle color =
     (if angle \<le> endAngle then
        Option.bind (arc_angle_loop rnd arc_x arc_y cx cy rt (rnd (angle + 2)) endAngle color)
          (\<lambda>rest. Some (DrawPixel (arc_x cx rt angle) (arc_y cy rt angle) color # rest))
      else Some [])"

declare arc_angle_loop.simps [code]

function arc_thickness_loop ::
  "(real \<Rightarrow> real) \<Rightarrow> (int \<Rightarrow> int \<Rightarrow> real \<Rightarrow> int) \<Rightarrow> (int \<Rightarrow> int \<Rightarrow> real \<Rightarrow> int) \<Rightarrow>
   int \<Rightarrow> int \<Rightarrow> int \<Rightarrow> real \<Rightarrow> real \<Rightarrow> u16 \<Rightarrow> int \<Rightarrow> int \<Rightarrow> gfx_call list option" where
  "arc_thickness_loop rnd arc_x arc_y cx cy radius startAngle endAngle color thickness t =
     (if t < thickness then
        Option.bind (arc_angle_loop rnd arc_x arc_y cx cy (radius - t) startAngle endAngle color)
          (\<lambda>ring. Option.bind
             (arc_thickness_loop rnd arc_x arc_y cx cy radius startAngle endAngle color thickness (t + 1))
             (\<lambda>rest. Some (ring @ rest)))
      else Some [])"
  by pat_completeness auto
termination
  by (relation "measure (\<lambda>(rnd, arc_x, arc_y, cx, cy, radius, startAngle, endAngle, color, thickness, t).
        nat (thickness - t))") auto

declare arc_thickness_loop.simps [simp del]

definition drawArc ::
  "(real \<Rightarrow> real) \<Rightarrow> (int \<Rightarrow> int \<Rightarrow> real \<Rightarrow> int) \<Rightarrow> (int \<Rightarrow> int \<Rightarrow> real \<Rightarrow> int) \<Rightarrow>
   int \<Rightarrow> int \<Rightarrow> int \<Rightarrow> real \<Rightarrow> real \<Rightarrow> u16 \<Rightarrow> int \<Rightarrow> gfx_call list option" where
  "drawArc rnd arc_x arc_y cx cy radius startAngle endAngle color thickness =
     (let endAngle = (if endAngle < startAngle then rnd (endAngle + 360) else endAngle)
      in arc_thickness_loop rnd arc_x arc_y cx cy radius startAngle endAngle color thickness 0)"

text \<open>
  One instance of the parameters: exact real arithmetic, with C's truncation towards zero
  in the conversion to \<open>int\<close>.
\<close>

definition c_trunc :: "real \<Rightarrow> int" where
  "c_trunc v = (if v \<ge> 0 then \<lfloor>v\<rfloor> else \<lceil>v\<rceil>)"

definition exact_arc_x :: "int \<Rightarrow> int \<Rightarrow> real \<Rightarrow> int" where
  "exact_arc_x cx r angle = c_trunc (of_int cx + of_int r * cos (angle * pi / 180))"

definition exact_arc_y :: "int \<Rightarrow> int \<Rightarrow> real \<Rightarrow> int" where
  "exact_arc_y cy r angle = c_trunc (of_int cy + of_int r * sin (angle * pi / 180))"


section \<open>Controller initialisation and full-screen fill\<close>

text \<open>
  \<open>initDisplay\<close> of DigitalMeters.ino. Serial output is not part of the bus and is
  left out.
\<close>

definition initDisplay :: bus where
  "initDisplay =
     [DigitalWrite TFT_CS HIGH, DigitalWrite TFT_DC LOW] @
     [Delay 200] @
     tft_send_cmd 0xEF @
     tft_send_cmd 0xEB @ tft_send_data 0x14 @
     tft_send_cmd 0xFE @
     tft_send_cmd 0xEF @
     tft_send_cmd 0x3A @ tft_send_data 0x05 @
     tft_send_cmd 0x11 @
     [Delay 120] @
     tft_send_cmd 0x29 @
     [Delay 20]"

text \<open>
  \<open>tft_init\<close> of HelloWorld.ino (the file holds the sketch twice, with the same
  sequence). \<open>pinMode\<close>, the SPI set-up and serial output are left out; the reset
  pin is not connected (\<open>TFT_RST\<close> is \<open>-1\<close>), so the branch that waits 200 ms runs.
\<close>

definition tft_init :: bus where
  "tft_init =
     [DigitalWrite TFT_BL HIGH] @
     (if TFT_RST \<ge> 0 then [DigitalWrite TFT_RST HIGH] else []) @
     [DigitalWrite TFT_CS HIGH, DigitalWrite TFT_DC LOW] @
     (if TFT_RST \<ge> 0
      then [DigitalWrite TFT_RST LOW, Delay 100, DigitalWrite TFT_RST HIGH, Delay 120]
      else [Delay 200]) @
     [DigitalWrite TFT_CS LOW, Transfer 0x00, DigitalWrite TFT_CS HIGH] @
     tft_send_cmd 0xEF @
     tft_send_cmd 0xEB @ tft_send_data 0x14 @
     tft_send_cmd 0xFE @
     tft_send_cmd 0xEF @
     tft_send_cmd 0xEB @ tft_send_data 0x14 @
     tft_send_cmd 0x84 @ tft_send_data 0x40 @
     tft_send_cmd 0x85 @ tft_send_data 0xFF @
     tft_send_cmd 0x86 @ tft_send_data 0xFF @
     tft_send_cmd 0x87 @ tft_send_data 0xFF @
     tft_send_cmd 0x88 @ tft_send_data 0x0A @
     tft_send_cmd 0x89 @ tft_send_data 0x21 @
     tft_send_cmd 0x8A @ tft_send_data 0x00 @
     tft_send_cmd 0x8B @ tft_send_data 0x80 @
     tft_send_cmd 0x8C @ tft_send_data 0x01 @
     tft_send_cmd 0x8D @ tft_send_data 0x01 @
     tft_send_cmd 0x8E @ tft_send_data 0xFF @
     tft_send_cmd 0x8F @ tft_send_data 0xFF @
     tft_send_cmd 0xB6 @ tft_send_data 0x00 @ tft_send_data 0x20 @
     tft_send_cmd 0x36 @ tft_send_data 0x08 @
     tft_send_cmd 0x3A @ tft_send_data 0x05 @
     tft_send_cmd 0x90 @ tft_send_data 0x08 @ tft_send_data 0x08 @ tft_send_data 0x08 @ tft_send_data 0x08 @
     tft_send_cmd 0xBD @ tft_send_data 0x06 @
     tft_send_cmd 0xBC @ tft_send_data 0x00 @
     tft_send_cmd 0xFF @ tft_send_data 0x60 @ tft_send_data 0x01 @ tft_send_data 0x04 @
     tft_send_cmd 0xC3 @ tft_send_data 0x13 @
     tft_send_cmd 0xC4 @ tft_send_data 0x13 @
     tft_send_cmd 0xC9 @ tft_send_data 0x22 @
     tft_send_cmd 0xBE @ tft_send_data 0x11 @
     tft_send_cmd 0xE1 @ tft_send_data 0x10 @ tft_send_data 0x0E @
     tft_send_cmd 0xDF @ tft_send_data 0x21 @ tft_send_data 0x0C @ tft_send_data 0x02 @
     tft_send_cmd 0xF0 @ tft_send_data 0x45 @ tft_send_data 0x09 @ tft_send_data 0x08 @ tft_send_data 0x08 @ tft_send_data 0x26 @ tft_send_data 0x2A @
     tft_send_cmd 0xF1 @ tft_send_data 0x43 @ tft_send_data 0x70 @ tft_send_data 0x72 @ tft_send_data 0x36 @ tft_send_data 0x37 @ tft_send_data 0x6F @
     tft_send_cmd 0xF2 @ tft_send_data 0x45 @ tft_send_data 0x09 @ tft_send_data 0x08 @ tft_send_data 0x08 @ tft_send_data 0x26 @ tft_send_data 0x2A @
     tft_send_cmd 0xF3 @ tft_send_data 0x43 @ tft_send_data 0x70 @ tft_send_data 0x72 @ tft_send_data 0x36 @ tft_send_data 0x37 @ tft_send_data 0x6F @
     tft_send_cmd 0xED @ tft_send_data 0x1B @ tft_send_data 0x0B @
     tft_send_cmd 0xAE @ tft_send_data 0x77 @
     tft_send_cmd 0xCD @ tft_send_data 0x63 @
     tft_send_cmd 0x70 @ tft_send_data 0x07 @ tft_send_data 0x07 @ tft_send_data 0x04 @ tft_send_data 0x0E @ tft_send_data 0x0F @ tft_send_data 0x09 @ tft_send_data 0x07 @ tft_send_data 0x08 @ tft_send_data 0x03 @
     tft_send_cmd 0xE8 @ tft_send_data 0x34 @
     tft_send_cmd 0x62 @ tft_send_data 0x18 @ tft_send_data 0x0D @ tft_send_data 0x71 @ tft_send_data 0xED @ tft_send_data 0x70 @ tft_send_data 0x70 @ tft_send_data 0x18 @ tft_send_data 0x0F @ tft_send_data 0x71 @ tft_send_data 0xEF @ tft_send_data 0x70 @ tft_send_data 0x70 @
     tft_send_cmd 0x63 @ tft_send_data 0x18 @ tft_send_data 0x11 @ tft_send_data 0x71 @ tft_send_data 0xF1 @ tft_send_data 0x70 @ tft_send_data 0x70 @ tft_send_data 0x18 @ tft_send_data 0x13 @ tft_send_data 0x71 @ tft_send_data 0xF3 @ tft_send_data 0x70 @ tft_send_data 0x70 @
     tft_send_cmd 0x64 @ tft_send_data 0x28 @ tft_send_data 0x29 @ tft_send_data 0xF1 @ tft_send_data 0x01 @ tft_send_data 0xF1 @ tft_send_data 0x00 @ tft_send_data 0x07 @
     tft_send_cmd 0x66 @ tft_send_data 0x3C @ tft_send_data 0x00 @ tft_send_data 0xCD @ tft_send_data 0x67 @ tft_send_data 0x45 @ tft_send_data 0x45 @ tft_send_data 0x10 @ tft_send_data 0x00 @ tft_send_data 0x00 @ tft_send_data 0x00 @
     tft_send_cmd 0x67 @ tft_send_data 0x00 @ tft_send_data 0x3C @ tft_send_data 0x00 @ tft_send_data 0x00 @ tft_send_data 0x00 @ tft_send_data 0x01 @ tft_send_data 0x54 @ tft_send_data 0x10 @ tft_send_data 0x32 @ tft_send_data 0x98 @
     tft_send_cmd 0x74 @ tft_send_data 0x10 @ tft_send_data 0x85 @ tft_send_data 0x80 @ tft_send_data 0x00 @ tft_send_data 0x00 @ tft_send_data 0x4E @ tft_send_data 0x00 @
     tft_send_cmd 0x98 @ tft_send_data 0x3E @ tft_send_data 0x07 @
     tft_send_cmd 0x35 @
     tft_send_cmd 0x21 @
     tft_send_cmd 0x11 @
     [Delay 120] @
     tft_send_cmd 0x29 @
     [Delay 20]"

text \<open>
  \<open>tft_fill_screen\<close> of HelloWorld.ino: the window's end column and end row are
  sent as \<open>TFT_WIDTH\<close> and \<open>TFT_HEIGHT\<close> themselves. Its pixel loop
  \<^verbatim>\<open>for (uint32_t i = 0; i < TFT_WIDTH * TFT_HEIGHT; i++)\<close> has the body and the
  shape of the loop of \<open>tft_fill_rect\<close>, so \<open>fill_loop\<close> stands for both.
\<close>

definition tft_fill_screen :: "u16 \<Rightarrow> bus" where
  "tft_fill_screen color =
     tft_send_cmd 0x2A @
     tft_send_data 0x00 @
     tft_send_data 0x00 @
     tft_send_data (to_u8 (drop_bit 8 TFT_WIDTH AND 0xFF)) @
     tft_send_data (to_u8 (TFT_WIDTH AND 0xFF)) @
     tft_send_cmd 0x2B @
     tft_send_data 0x00 @
     tft_send_data 0x00 @
     tft_send_data (to_u8 (drop_bit 8 TFT_HEIGHT AND 0xFF)) @
     tft_send_data (to_u8 (TFT_HEIGHT AND 0xFF)) @
     tft_send_cmd 0x2C @
     (let hi = to_u8 (drop_bit 8 (uint color));
          lo = to_u8 (uint color AND 0xFF)
      in [DigitalWrite TFT_DC HIGH, DigitalWrite TFT_CS LOW] @
         fill_loop hi lo 0 (to_u32 (TFT_WIDTH * TFT_HEIGHT)) @
         [DigitalWrite TFT_CS HIGH])"

section \<open>The display controller as the receiver of the bus\<close>

text \<open>
  Modelled from the spec: the GC9A01 controller and its display surface are hardware, not
  code of the repository. The model follows the data model of the specification (a
  \<open>240 \<times> 240\<close> grid of 16-bit pixels, addressed by a window that is set before a
  pixel stream) and the bus contract (one byte per transfer while chip-select is low, a
  command when the data/command line is low, data when it is high):
  \<^item> command \<open>0x2A\<close> takes four data bytes, start and end column, high byte first;
    \<open>0x2B\<close> the same for rows; \<open>0x2C\<close> starts a pixel stream at the window's
    first cell;
  \<^item> in a pixel stream two data bytes, high byte first, are one pixel; pixels fill
    the window row by row and wrap to its first cell after its last;
  \<^item> a cell of the window outside the \<open>240 \<times> 240\<close> panel has no memory: the pixel
    addressed to it is dropped, and the stream goes on to the next cell.
  The receiver keeps two logs: everything it received, and every cell it wrote.
\<close>

datatype rx = Cmd u8 | Dat u8 | Wait nat

record gc9a01 =
  pin_dc :: level
  pin_cs :: level
  cur_cmd :: u8
  params :: "u8 list"
  col_start :: nat
  col_end :: nat
  row_start :: nat
  row_end :: nat
  ram_pos :: nat
  pending_hi :: "u8 option"
  surface :: "nat \<times> nat \<Rightarrow> u16"
  rx_log :: "rx list"
  pixel_log :: "((nat \<times> nat) \<times> u16) list"

definition be16 :: "u8 \<Rightarrow> u8 \<Rightarrow> nat" where
  "be16 hi lo = unat hi * 256 + unat lo"

definition gc_command :: "u8 \<Rightarrow> gc9a01 \<Rightarrow> gc9a01" where
  "gc_command b s =
     s\<lparr>cur_cmd := b, params := [], ram_pos := 0, pending_hi := None,
       rx_log := rx_log s @ [Cmd b]\<rparr>"

definition window_width :: "gc9a01 \<Rightarrow> nat" where
  "window_width s = col_end s + 1 - col_start s"

definition window_height :: "gc9a01 \<Rightarrow> nat" where
  "window_height s = row_end s + 1 - row_start s"

text \<open>The cell the \<open>i\<close>-th pixel of a stream addresses, and whether the panel has it.\<close>

definition cell_of :: "gc9a01 \<Rightarrow> nat \<Rightarrow> nat \<times> nat" where
  "cell_of s i = (col_start s + i mod window_width s, row_start s + i div window_width s)"

definition in_panel :: "nat \<times> nat \<Rightarrow> bool" where
  "in_panel cell = (fst cell < 240 \<and> snd cell < 240)"

definition gc_write_pixel :: "u16 \<Rightarrow> gc9a01 \<Rightarrow> gc9a01" where
  "gc_write_pixel v s =
     (if window_width s = 0 \<or> window_height s = 0 then s
      else
        let cell = cell_of s (ram_pos s);
            s' = s\<lparr>ram_pos := (ram_pos s + 1) mod (window_width s * window_height s)\<rparr>
        in if in_panel cell
           then s'\<lparr>surface := (surface s)(cell := v),
                   pixel_log := pixel_log s @ [(cell, v)]\<rparr>
           else s')"

definition gc_data :: "u8 \<Rightarrow> gc9a01 \<Rightarrow> gc9a01" where
  "gc_data b s0 =
     (let s = s0\<lparr>rx_log := rx_log s0 @ [Dat b]\<rparr>
      in if cur_cmd s = 0x2A then
           (if length (params s) < 4 then
              (let ps = params s @ [b]
               in if length ps = 4
                  then s\<lparr>params := ps, col_start := be16 (ps ! 0) (ps ! 1),
                         col_end := be16 (ps ! 2) (ps ! 3)\<rparr>
                  else s\<lparr>params := ps\<rparr>)
            else s)
         else if cur_cmd s = 0x2B then
           (if length (params s) < 4 then
              (let ps = params s @ [b]
               in if length ps = 4
                  then s\<lparr>params := ps, row_start := be16 (ps ! 0) (ps ! 1),
                         row_end := be16 (ps ! 2) (ps ! 3)\<rparr>
                  else s\<lparr>params := ps\<rparr>)
            else s)
         else if cur_cmd s = 0x2C then
           (case pending_hi s of
              None \<Rightarrow> s\<lparr>pending_hi := Some b\<rparr>
            | Some hi \<Rightarrow> gc_write_pixel (word_cat hi b) (s\<lparr>pending_hi := None\<rparr>))
         else s)"

fun gc_step :: "gc9a01 \<Rightarrow> bus_event \<Rightarrow> gc9a01" where
  "gc_step s (DigitalWrite p l) =
     (if p = TFT_DC then s\<lparr>pin_dc := l\<rparr>
      else if p = TFT_CS then s\<lparr>pin_cs := l\<rparr>
      else s)"
| "gc_step s (Transfer b) =
     (if pin_cs s = HIGH then s
      else if pin_dc s = LOW then gc_command b s
      else gc_data b s)"
| "gc_step s (Delay ms) = s\<lparr>rx_log := rx_log s @ [Wait ms]\<rparr>"

definition gc_run :: "bus \<Rightarrow> gc9a01 \<Rightarrow> gc9a01" where
  "gc_run es s = foldl gc_step s es"

text \<open>The controller after power-up, before the sketch has driven any pin.\<close>

definition gc_power_on :: gc9a01 where
  "gc_power_on =
     \<lparr>pin_dc = LOW, pin_cs = HIGH, cur_cmd = 0, params = [],
      col_start = 0, col_end = 239, row_start = 0, row_end = 239,
      ram_pos = 0, pending_hi = None, surface = (\<lambda>_. 0),
      rx_log = [], pixel_log = []\<rparr>"

text \<open>The cells a sequence of bus events writes: the pixel set it rasterizes.\<close>

definition plotted :: "bus \<Rightarrow> (nat \<times> nat) set" where
  "plotted es = fst ` set (pixel_log (gc_run es gc_power_on))"

text \<open>The written cells as integer coordinates.\<close>

definition plotted_at :: "bus \<Rightarrow> (int \<times> int) set" where
  "plotted_at es = (\<lambda>(p, q). (int p, int q)) ` plotted es"


text \<open>
  The big-endian bytes of a 16-bit value, as the wire carries a coordinate or a colour:
  high byte first.
\<close>

definition hi8 :: "u16 \<Rightarrow> u8" where
  "hi8 v = ucast (drop_bit 8 v)"

definition lo8 :: "u16 \<Rightarrow> u8" where
  "lo8 v = ucast v"

text \<open>
  What a pixel stream does to the surface and to the log of written cells, for the
  stream positions \<open>is\<close> in order.
\<close>

definition stream_surface :: "gc9a01 \<Rightarrow> u16 \<Rightarrow> nat list \<Rightarrow> nat \<times> nat \<Rightarrow> u16" where
  "stream_surface s v is =
     foldl (\<lambda>f i. if in_panel (cell_of s i) then f(cell_of s i := v) else f) (surface s) is"

definition stream_cells :: "gc9a01 \<Rightarrow> u16 \<Rightarrow> nat list \<Rightarrow> ((nat \<times> nat) \<times> u16) list" where
  "stream_cells s v is = map (\<lambda>i. (cell_of s i, v)) (filter (\<lambda>i. in_panel (cell_of s i)) is)"

text \<open>
  The state in which the pixel stream of \<open>tft_fill_rect\<close> starts: the window is
  programmed, memory write is selected, the data/command line is high and chip-select low.
\<close>

definition window_state :: "u16 \<Rightarrow> u16 \<Rightarrow> u16 \<Rightarrow> u16 \<Rightarrow> gc9a01 \<Rightarrow> gc9a01" where
  "window_state x y w h s =
     s\<lparr>pin_dc := HIGH, pin_cs := LOW, cur_cmd := 0x2C, params := [],
       col_start := unat x, col_end := unat (x + w - 1),
       row_start := unat y, row_end := unat (y + h - 1),
       ram_pos := 0, pending_hi := None,
       rx_log := rx_log s @
         [Cmd 0x2A, Dat (hi8 x), Dat (lo8 x), Dat (hi8 (x + w - 1)), Dat (lo8 (x + w - 1)),
          Cmd 0x2B, Dat (hi8 y), Dat (lo8 y), Dat (hi8 (y + h - 1)), Dat (lo8 (y + h - 1)),
          Cmd 0x2C]\<rparr>"


text \<open>The same for \<open>tft_fill_screen\<close>, whose window ends at column and row 240.\<close>

definition screen_window_state :: "gc9a01 \<Rightarrow> gc9a01" where
  "screen_window_state s =
     s\<lparr>pin_dc := HIGH, pin_cs := LOW, cur_cmd := 0x2C, params := [],
       col_start := 0, col_end := 240, row_start := 0, row_end := 240,
       ram_pos := 0, pending_hi := None,
       rx_log := rx_log s @
         [Cmd 0x2A, Dat 0x00, Dat 0x00, Dat 0x00, Dat 0xF0,
          Cmd 0x2B, Dat 0x00, Dat 0x00, Dat 0x00, Dat 0xF0, Cmd 0x2C]\<rparr>"


section \<open>Reading an initialisation trace\<close>

text \<open>
  \<open>delay_follows c ms t\<close>: every command \<open>c\<close> in the received trace \<open>t\<close> is
  directly followed by a delay of at least \<open>ms\<close> milliseconds, before anything else is
  received. \<open>wake_commands\<close> picks the sleep-out (\<open>0x11\<close>) and display-on
  (\<open>0x29\<close>) commands out of a trace, in order.
\<close>

fun delay_follows :: "u8 \<Rightarrow> nat \<Rightarrow> rx list \<Rightarrow> bool" where
  "delay_follows c ms [] = True"
| "delay_follows c ms [e] = (e \<noteq> Cmd c)"
| "delay_follows c ms (e # e' # es) =
     ((if e = Cmd c then (case e' of Wait n \<Rightarrow> ms \<le> n | _ \<Rightarrow> False) else True) \<and>
      delay_follows c ms (e' # es))"

definition wake_commands :: "rx list \<Rightarrow> rx list" where
  "wake_commands t = filter (\<lambda>e. e = Cmd 0x11 \<or> e = Cmd 0x29) t"


section \<open>The receiver runs event by event\<close>

lemma gc_run_append: "gc_run (a @ b) s = gc_run b (gc_run a s)"
  by (simp add: gc_run_def)

lemma gc_run_Nil: "gc_run [] s = s"
  by (simp add: gc_run_def)

lemma gc_run_Cons: "gc_run (e # es) s = gc_run es (gc_step s e)"
  by (simp add: gc_run_def)

lemma gc_run_pixel:
  assumes "pin_dc s = HIGH" "pin_cs s = LOW" "cur_cmd s = 0x2C" "pending_hi s = None"
    and "window_width s \<noteq> 0" "window_height s \<noteq> 0"
  shows "gc_run [Transfer hi, Transfer lo] s =
    (gc_write_pixel (word_cat hi lo) s)\<lparr>rx_log := rx_log s @ [Dat hi, Dat lo]\<rparr>"
  using assms
  by (simp add: gc_run_def gc_data_def gc_write_pixel_def Let_def window_width_def window_height_def cell_of_def)


lemma cell_of_cong [simp]:
  "cell_of (s\<lparr>ram_pos := a\<rparr>) = cell_of s"
  "cell_of (s\<lparr>surface := b\<rparr>) = cell_of s"
  "cell_of (s\<lparr>pixel_log := c\<rparr>) = cell_of s"
  "cell_of (s\<lparr>rx_log := d\<rparr>) = cell_of s"
  by (simp_all add: cell_of_def window_width_def fun_eq_iff)

lemma window_cong [simp]:
  "window_width (s\<lparr>ram_pos := a\<rparr>) = window_width s"
  "window_width (s\<lparr>surface := b\<rparr>) = window_width s"
  "window_width (s\<lparr>pixel_log := c\<rparr>) = window_width s"
  "window_width (s\<lparr>rx_log := d\<rparr>) = window_width s"
  "window_height (s\<lparr>ram_pos := a\<rparr>) = window_height s"
  "window_height (s\<lparr>surface := b\<rparr>) = window_height s"
  "window_height (s\<lparr>pixel_log := c\<rparr>) = window_height s"
  "window_height (s\<lparr>rx_log := d\<rparr>) = window_height s"
  by (simp_all add: window_width_def window_height_def)

lemma concat_replicate_snoc:
  "concat (replicate (Suc k) xs) = concat (replicate k xs) @ xs"
  by (induction k) simp_all

lemma gc_run_stream:
  assumes "pin_dc s = HIGH" "pin_cs s = LOW" "cur_cmd s = 0x2C" "pending_hi s = None"
    and "ram_pos s = p" "p < window_width s * window_height s"
    and "p + k \<le> window_width s * window_height s"
  shows "gc_run (concat (replicate k [Transfer hi, Transfer lo])) s =
    s\<lparr>ram_pos := (p + k) mod (window_width s * window_height s),
      surface := stream_surface s (word_cat hi lo) [p..<p + k],
      pixel_log := pixel_log s @ stream_cells s (word_cat hi lo) [p..<p + k],
      rx_log := rx_log s @ concat (replicate k [Dat hi, Dat lo])\<rparr>"
  using assms(7)
proof (induction k)
  case 0
  with assms show ?case
    by (simp add: gc_run_Nil stream_surface_def stream_cells_def)
next
  case (Suc k)
  let ?v = "word_cat hi lo :: u16"
  let ?A = "window_width s * window_height s"
  let ?sk = "s\<lparr>ram_pos := (p + k) mod ?A,
      surface := stream_surface s ?v [p..<p + k],
      pixel_log := pixel_log s @ stream_cells s ?v [p..<p + k],
      rx_log := rx_log s @ concat (replicate k [Dat hi, Dat lo])\<rparr>"
  from Suc.prems have lt: "p + k < ?A" by simp
  then have nz: "window_width s \<noteq> 0" "window_height s \<noteq> 0"
    by (metis mult_0 not_less_zero, metis mult_0_right not_less_zero)
  have run_k: "gc_run (concat (replicate k [Transfer hi, Transfer lo])) s = ?sk"
    using Suc by simp
  have split: "concat (replicate (Suc k) [Transfer hi, Transfer lo])
      = concat (replicate k [Transfer hi, Transfer lo]) @ [Transfer hi, Transfer lo]"
    by (rule concat_replicate_snoc)
  have dsplit: "concat (replicate (Suc k) [Dat hi, Dat lo])
      = concat (replicate k [Dat hi, Dat lo]) @ [Dat hi, Dat lo]"
    by (rule concat_replicate_snoc)
  have upt: "[p..<p + Suc k] = [p..<p + k] @ [p + k]" by simp
  have step: "gc_run [Transfer hi, Transfer lo] ?sk =
      (gc_write_pixel ?v ?sk)\<lparr>rx_log := rx_log ?sk @ [Dat hi, Dat lo]\<rparr>"
    by (rule gc_run_pixel) (use assms nz in simp_all)
  have md: "(p + k) mod ?A = p + k" using lt by simp
  show ?case
    unfolding split gc_run_append run_k step dsplit upt
    by (simp add: gc_write_pixel_def Let_def nz md stream_surface_def stream_cells_def del: upt_Suc)
qed

lemma fill_loop_replicate:
  "fill_loop hi lo i n = concat (replicate (unat n - unat i) [Transfer hi, Transfer lo])"
proof (induction hi lo i n rule: fill_loop.induct)
  case (1 hi lo i n)
  show ?case
  proof (cases "i < n")
    case True
    then have a: "unat i < unat n"
      by (simp add: word_less_nat_alt)
    from True have b: "unat (i + 1) = unat i + 1"
      by (metis (no_types, lifting) add.commute add_0 inc_i inc_le
        unat_plus_simple unsigned_0 unsigned_1 word_gt_0)
    from a b have c: "unat n - unat i = Suc (unat n - unat (i + 1))"
      by simp
    show ?thesis
      using True 1 by (subst fill_loop.simps) (simp add: c)
  next
    case False
    then have "unat n - unat i = 0"
      by (simp add: word_less_nat_alt)
    with False show ?thesis
      by (subst fill_loop.simps) simp
  qed
qed


lemma to_u8_hi_int: "to_u8 (drop_bit 8 k) = hi8 (word_of_int k)"
  unfolding to_u8_def hi8_def
  by (rule bit_word_eqI) (simp add: bit_simps)

lemma xff: "(0xFF :: int) = mask 8"
  by (simp add: mask_eq_exp_minus_1)

lemma to_u8_lo_int: "to_u8 (k AND 0xFF) = lo8 (word_of_int k)"
  unfolding to_u8_def lo8_def xff
  by (rule bit_word_eqI) (simp add: bit_simps)


lemma to_u8_hi: "to_u8 (drop_bit 8 (uint (v :: u16))) = hi8 v"
  by (simp add: to_u8_hi_int)

lemma to_u8_lo: "to_u8 (uint (v :: u16) AND 0xFF) = lo8 v"
  by (simp add: to_u8_lo_int)

lemma to_u8_hi_end: "to_u8 (drop_bit 8 (uint (x :: u16) + uint (w :: u16) - 1)) = hi8 (x + w - 1)"
  by (simp add: to_u8_hi_int)

lemma to_u8_lo_end: "to_u8 ((uint (x :: u16) + uint (w :: u16) - 1) AND 0xFF) = lo8 (x + w - 1)"
  by (simp add: to_u8_lo_int)

lemma to_u32_mult: "unat (to_u32 (uint (w :: u16) * uint (h :: u16))) = unat w * unat h"
proof -
  have w: "unat w < 2 ^ 16" and h: "unat h < 2 ^ 16"
    using unsigned_less [of w] unsigned_less [of h] by simp_all
  have "unat w * unat h < 2 ^ 16 * 2 ^ 16"
    by (rule mult_strict_mono) (use w h in simp_all)
  then have lt: "unat w * unat h < 2 ^ 32"
    by (simp only: power_add [symmetric]) simp
  have "to_u32 (uint w * uint h) = of_nat (unat w * unat h)"
    by (simp add: to_u32_def)
  then show ?thesis
    using lt by (simp add: unat_of_nat take_bit_nat_eq_self del: of_nat_mult)
qed


lemma gc_data_rx [simp]:
  "rx_log (gc_data b s) = rx_log s @ [Dat b]"
  "pin_dc (gc_data b s) = pin_dc s"
  "pin_cs (gc_data b s) = pin_cs s"
  by (simp_all add: gc_data_def gc_write_pixel_def Let_def split: option.split)

lemma gc_command_rx [simp]:
  "rx_log (gc_command b s) = rx_log s @ [Cmd b]"
  "pin_dc (gc_command b s) = pin_dc s"
  "pin_cs (gc_command b s) = pin_cs s"
  by (simp_all add: gc_command_def)

lemma rx_send_cmd [simp]:
  "rx_log (gc_run (tft_send_cmd c) s) = rx_log s @ [Cmd c]"
  by (simp add: tft_send_cmd_def gc_run_def)

lemma rx_send_data [simp]:
  "rx_log (gc_run (tft_send_data d) s) = rx_log s @ [Dat d]"
  by (simp add: tft_send_data_def gc_run_def)

lemma rx_stream_body:
  "pin_dc s = HIGH \<Longrightarrow> pin_cs s = LOW \<Longrightarrow>
   rx_log (gc_run (concat (replicate k [Transfer hi, Transfer lo]) @ [DigitalWrite TFT_CS HIGH]) s)
     = rx_log s @ concat (replicate k [Dat hi, Dat lo])"
proof (induction k arbitrary: s)
  case 0
  then show ?case by (simp add: gc_run_def)
next
  case (Suc k)
  let ?s2 = "gc_step (gc_step s (Transfer hi)) (Transfer lo)"
  have pins: "pin_dc ?s2 = HIGH" "pin_cs ?s2 = LOW"
    and log: "rx_log ?s2 = rx_log s @ [Dat hi, Dat lo]"
    using Suc.prems by simp_all
  have "gc_run (concat (replicate (Suc k) [Transfer hi, Transfer lo]) @ [DigitalWrite TFT_CS HIGH]) s
      = gc_run (concat (replicate k [Transfer hi, Transfer lo]) @ [DigitalWrite TFT_CS HIGH]) ?s2"
    by (simp add: gc_run_def)
  then show ?case
    using Suc.IH [OF pins] log by simp
qed

lemma rx_stream:
  "rx_log (gc_run ([DigitalWrite TFT_DC HIGH, DigitalWrite TFT_CS LOW] @
      concat (replicate k [Transfer hi, Transfer lo]) @ [DigitalWrite TFT_CS HIGH]) s)
     = rx_log s @ concat (replicate k [Dat hi, Dat lo])"
proof -
  let ?s1 = "s\<lparr>pin_dc := HIGH, pin_cs := LOW\<rparr>"
  have "gc_run ([DigitalWrite TFT_DC HIGH, DigitalWrite TFT_CS LOW] @
      concat (replicate k [Transfer hi, Transfer lo]) @ [DigitalWrite TFT_CS HIGH]) s
    = gc_run (concat (replicate k [Transfer hi, Transfer lo]) @ [DigitalWrite TFT_CS HIGH]) ?s1"
    by (simp add: gc_run_def)
  then show ?thesis
    using rx_stream_body [of ?s1 k hi lo] by simp
qed

lemma rx_set_addr_window:
  "rx_log (gc_run (tft_set_addr_window x y w h) s) = rx_log s @
     [Cmd 0x2A, Dat (hi8 x), Dat (lo8 x), Dat (hi8 (x + w - 1)), Dat (lo8 (x + w - 1)),
      Cmd 0x2B, Dat (hi8 y), Dat (lo8 y), Dat (hi8 (y + h - 1)), Dat (lo8 (y + h - 1)),
      Cmd 0x2C]"
  by (simp add: tft_set_addr_window_def gc_run_append to_u8_hi to_u8_lo to_u8_hi_end to_u8_lo_end)

lemma tft_fill_rect_unfold:
  "tft_fill_rect x y w h color =
     tft_set_addr_window x y w h @
     ([DigitalWrite TFT_DC HIGH, DigitalWrite TFT_CS LOW] @
      concat (replicate (unat w * unat h) [Transfer (hi8 color), Transfer (lo8 color)]) @
      [DigitalWrite TFT_CS HIGH])"
  by (simp add: tft_fill_rect_def Let_def fill_loop_replicate to_u32_mult to_u8_hi to_u8_lo)

section \<open>The fill primitive\<close>

text \<open>
  Claim C1. For every in-bounds call \<open>fillRect(x, y, w, h, color)\<close>, with
  \<open>x + w \<le> 240\<close> and \<open>y + h \<le> 240\<close>, the controller receives, after whatever it
  had received before: the column command \<open>0x2A\<close> with the window \<open>[x, x+w-1]\<close>, the
  row command \<open>0x2B\<close> with the window \<open>[y, y+h-1]\<close> (each bound as the two bytes of
  its 16-bit value, high byte first), the memory-write command \<open>0x2C\<close>, and then exactly
  \<open>w * h\<close> pixels of two bytes, each the colour's high byte followed by its low byte.
\<close>

theorem fillRect_bus_trace:
  assumes "unat x + unat w \<le> 240" and "unat y + unat h \<le> 240"
  shows "rx_log (gc_run (tft_fill_rect x y w h color) s) = rx_log s @
     [Cmd 0x2A, Dat (hi8 x), Dat (lo8 x), Dat (hi8 (x + w - 1)), Dat (lo8 (x + w - 1)),
      Cmd 0x2B, Dat (hi8 y), Dat (lo8 y), Dat (hi8 (y + h - 1)), Dat (lo8 (y + h - 1)),
      Cmd 0x2C] @
     concat (replicate (unat w * unat h) [Dat (hi8 color), Dat (lo8 color)])"
  unfolding tft_fill_rect_unfold gc_run_append [of "tft_set_addr_window x y w h"]
  by (simp only: rx_stream rx_set_addr_window append_assoc)



theorem fillRect_bus_trace_witness:
  "rx_log (gc_run (tft_fill_rect 10 20 3 2 0xF81F) gc_power_on) =
     [Cmd 0x2A, Dat 0, Dat 10, Dat 0, Dat 12, Cmd 0x2B, Dat 0, Dat 20, Dat 0, Dat 21, Cmd 0x2C,
      Dat 0xF8, Dat 0x1F, Dat 0xF8, Dat 0x1F, Dat 0xF8, Dat 0x1F,
      Dat 0xF8, Dat 0x1F, Dat 0xF8, Dat 0x1F, Dat 0xF8, Dat 0x1F]"
proof -
  have six: "replicate 6 z = [z, z, z, z, z, z]" for z :: "rx list"
    by (simp add: eval_nat_numeral)
  have bytes: "hi8 0xF81F = 0xF8" "lo8 0xF81F = 0x1F" "hi8 10 = 0" "lo8 10 = 10"
    "hi8 12 = 0" "lo8 12 = 12" "hi8 20 = 0" "lo8 20 = 20" "hi8 21 = 0" "lo8 21 = 21"
    by (simp_all add: hi8_def lo8_def)
  have "unat (10 :: u16) + unat (3 :: u16) \<le> 240" and "unat (20 :: u16) + unat (2 :: u16) \<le> 240"
    by simp_all
  from fillRect_bus_trace [OF this, of "0xF81F" gc_power_on]
  show ?thesis
    by (simp add: bytes six gc_power_on_def)
qed

text \<open>
  Claim C3. \<open>drawPixel(x, y, c)\<close> with \<open>x \<ge> 240\<close> or \<open>y \<ge> 240\<close> performs no bus
  event at all (no command, no pixel data), so the controller and its surface stay as they
  are; for in-bounds \<open>(x, y)\<close> it is exactly \<open>fillRect(x, y, 1, 1, c)\<close>.
\<close>

theorem drawPixel_clips:
  "(240 \<le> x \<or> 240 \<le> y \<longrightarrow>
      tft_draw_pixel x y color = [] \<and> gc_run (tft_draw_pixel x y color) s = s) \<and>
   (x < 240 \<and> y < 240 \<longrightarrow>
      tft_draw_pixel x y color = tft_fill_rect x y 1 1 color)"
  by (auto simp add: tft_draw_pixel_def gc_run_def word_le_def word_less_def)

theorem drawPixel_clips_witness:
  "tft_draw_pixel 240 7 0xF800 = [] \<and>
   gc_run (tft_draw_pixel 240 7 0xF800) gc_power_on = gc_power_on \<and>
   tft_draw_pixel 7 65535 0xF800 = [] \<and>
   tft_draw_pixel 239 0 0xF800 = tft_fill_rect 239 0 1 1 0xF800"
  using drawPixel_clips [of 240 7 "0xF800" gc_power_on]
    drawPixel_clips [of 7 65535 "0xF800" gc_power_on]
    drawPixel_clips [of 239 0 "0xF800" gc_power_on]
  by (simp add: gc_run_Nil)

section \<open>What a fill does to the display\<close>

lemma be16_hi_lo: "be16 (hi8 v) (lo8 v) = unat v"
proof -
  have lt: "unat v < 65536"
    using unsigned_less [of v] by simp
  have hi: "unat (hi8 v) = unat v div 256"
    using lt by (simp add: hi8_def unsigned_ucast_eq unat_drop_bit_eq drop_bit_eq_div take_bit_eq_mod unat_div less_mult_imp_div_less)
  have lo: "unat (lo8 v) = unat v mod 256"
    by (simp add: lo8_def unsigned_ucast_eq take_bit_eq_mod)
  show ?thesis
    by (simp add: be16_def hi lo)
qed


lemma gc_run_set_addr_window:
  "gc_run (tft_set_addr_window x y w h) s =
     s\<lparr>pin_dc := LOW, pin_cs := HIGH, cur_cmd := 0x2C, params := [],
       col_start := unat x, col_end := unat (x + w - 1),
       row_start := unat y, row_end := unat (y + h - 1),
       ram_pos := 0, pending_hi := None,
       rx_log := rx_log s @
         [Cmd 0x2A, Dat (hi8 x), Dat (lo8 x), Dat (hi8 (x + w - 1)), Dat (lo8 (x + w - 1)),
          Cmd 0x2B, Dat (hi8 y), Dat (lo8 y), Dat (hi8 (y + h - 1)), Dat (lo8 (y + h - 1)),
          Cmd 0x2C]\<rparr>"
  by (simp add: tft_set_addr_window_def to_u8_hi to_u8_lo to_u8_hi_end to_u8_lo_end
      tft_send_cmd_def tft_send_data_def gc_run_def gc_command_def gc_data_def be16_hi_lo)

lemma word_cat_hi_lo: "word_cat (hi8 v) (lo8 v) = (v :: u16)"
  unfolding hi8_def lo8_def
  by (rule bit_word_eqI) (auto simp add: bit_simps)

lemma window_end:
  fixes x w :: u16
  assumes "1 \<le> unat w" "unat x + unat w \<le> 65536"
  shows "unat (x + w - 1) = unat x + unat w - 1"
proof -
  have "x + w - 1 = of_nat (unat x + unat w - 1)"
    using assms by (simp add: of_nat_diff)
  moreover have "unat x + unat w - 1 < 2 ^ 16"
    using assms by simp
  ultimately show ?thesis
    by (simp add: unat_of_nat take_bit_nat_eq_self del: of_nat_add)
qed

lemma gc_run_fill_rect:
  assumes "1 \<le> unat w" "1 \<le> unat h" "unat x + unat w \<le> 65536" "unat y + unat h \<le> 65536"
  shows "gc_run (tft_fill_rect x y w h c) s =
    (window_state x y w h s)
      \<lparr>pin_cs := HIGH,
       surface := stream_surface (window_state x y w h s) c [0..<unat w * unat h],
       pixel_log := pixel_log s @ stream_cells (window_state x y w h s) c [0..<unat w * unat h],
       rx_log := rx_log (window_state x y w h s) @
         concat (replicate (unat w * unat h) [Dat (hi8 c), Dat (lo8 c)])\<rparr>"
proof -
  let ?s2 = "window_state x y w h s"
  let ?n = "unat w * unat h"
  have ww: "window_width ?s2 = unat w" and wh: "window_height ?s2 = unat h"
    using assms by (simp_all add: window_state_def window_width_def window_height_def window_end)
  have pos: "0 < ?n" using assms by simp
  have pre: "gc_run (tft_set_addr_window x y w h @ [DigitalWrite TFT_DC HIGH, DigitalWrite TFT_CS LOW]) s = ?s2"
    by (simp add: gc_run_append gc_run_set_addr_window) (simp add: gc_run_def window_state_def)
  have stream: "gc_run (concat (replicate ?n [Transfer (hi8 c), Transfer (lo8 c)])) ?s2 =
      ?s2\<lparr>ram_pos := (0 + ?n) mod (window_width ?s2 * window_height ?s2),
        surface := stream_surface ?s2 (word_cat (hi8 c) (lo8 c)) [0..<0 + ?n],
        pixel_log := pixel_log ?s2 @ stream_cells ?s2 (word_cat (hi8 c) (lo8 c)) [0..<0 + ?n],
        rx_log := rx_log ?s2 @ concat (replicate ?n [Dat (hi8 c), Dat (lo8 c)])\<rparr>"
    by (rule gc_run_stream) (use pos in \<open>simp_all add: ww wh\<close>, simp_all add: window_state_def)
  have "gc_run (tft_fill_rect x y w h c) s =
     gc_run [DigitalWrite TFT_CS HIGH]
       (gc_run (concat (replicate ?n [Transfer (hi8 c), Transfer (lo8 c)]))
         (gc_run (tft_set_addr_window x y w h @ [DigitalWrite TFT_DC HIGH, DigitalWrite TFT_CS LOW]) s))"
    by (simp only: tft_fill_rect_unfold gc_run_append append_assoc)
  also have "\<dots> = gc_run [DigitalWrite TFT_CS HIGH]
       (?s2\<lparr>ram_pos := (0 + ?n) mod (window_width ?s2 * window_height ?s2),
        surface := stream_surface ?s2 (word_cat (hi8 c) (lo8 c)) [0..<0 + ?n],
        pixel_log := pixel_log ?s2 @ stream_cells ?s2 (word_cat (hi8 c) (lo8 c)) [0..<0 + ?n],
        rx_log := rx_log ?s2 @ concat (replicate ?n [Dat (hi8 c), Dat (lo8 c)])\<rparr>)"
    by (simp only: pre stream)
  also have "\<dots> = ?s2
      \<lparr>pin_cs := HIGH,
       surface := stream_surface ?s2 c [0..<?n],
       pixel_log := pixel_log s @ stream_cells ?s2 c [0..<?n],
       rx_log := rx_log ?s2 @ concat (replicate ?n [Dat (hi8 c), Dat (lo8 c)])\<rparr>"
    by (simp add: gc_run_def ww wh word_cat_hi_lo) (simp add: window_state_def)
  finally show ?thesis .
qed

lemma foldl_surface_apply:
  "foldl (\<lambda>f i. if in_panel (cell_of s i) then f(cell_of s i := v) else f) f0 is cell =
     (if \<exists>i \<in> set is. in_panel (cell_of s i) \<and> cell_of s i = cell then v else f0 cell)"
  by (induction "is" arbitrary: f0) auto

lemma stream_surface_apply:
  "stream_surface s v is cell =
     (if \<exists>i \<in> set is. in_panel (cell_of s i) \<and> cell_of s i = cell then v else surface s cell)"
  by (simp add: stream_surface_def foldl_surface_apply)

lemma cell_of_window_state:
  assumes "1 \<le> unat w" "unat x + unat w \<le> 65536"
  shows "cell_of (window_state x y w h s) i = (unat x + i mod unat w, unat y + i div unat w)"
  using assms by (simp add: cell_of_def window_width_def window_state_def window_end)

lemma surface_window_state [simp]: "surface (window_state x y w h s) = surface s"
  by (simp add: window_state_def)

lemma fill_rect_cells_in_panel:
  assumes "1 \<le> unat w" "unat x + unat w \<le> 240" "unat y + unat h \<le> 240" "i < unat w * unat h"
  shows "in_panel (unat x + i mod unat w, unat y + i div unat w)"
proof -
  have a: "i mod unat w < unat w" using assms by simp
  have b: "i div unat w < unat h"
    using assms by (simp add: less_mult_imp_div_less mult.commute)
  have "unat x + i mod unat w < 240" "unat y + i div unat w < 240"
    using a b assms by linarith+
  then show ?thesis
    by (simp add: in_panel_def)
qed

lemma fill_rect_pixel_log:
  assumes "1 \<le> unat w" "1 \<le> unat h" "unat x + unat w \<le> 240" "unat y + unat h \<le> 240"
  shows "pixel_log (gc_run (tft_fill_rect x y w h c) s) =
     pixel_log s @ map (\<lambda>i. ((unat x + i mod unat w, unat y + i div unat w), c)) [0..<unat w * unat h]"
proof -
  have big: "unat x + unat w \<le> 65536" "unat y + unat h \<le> 65536"
    using assms by simp_all
  have keep: "filter (\<lambda>i. in_panel (unat x + i mod unat w, unat y + i div unat w))
      [0..<unat w * unat h] = [0..<unat w * unat h]"
    by (rule filter_True) (simp add: fill_rect_cells_in_panel [OF assms(1,3,4)])
  show ?thesis
    by (simp add: gc_run_fill_rect [OF assms(1,2) big] stream_cells_def
        cell_of_window_state [OF assms(1) big(1)] keep)
qed

lemma fill_rect_surface:
  assumes "1 \<le> unat w" "1 \<le> unat h" "unat x + unat w \<le> 240" "unat y + unat h \<le> 240"
  shows "surface (gc_run (tft_fill_rect x y w h c) s) (a, b) =
     (if unat x \<le> a \<and> a < unat x + unat w \<and> unat y \<le> b \<and> b < unat y + unat h then c
      else surface s (a, b))"
proof -
  have big: "unat x + unat w \<le> 65536" "unat y + unat h \<le> 65536"
    using assms by simp_all
  let ?n = "unat w * unat h"
  let ?cell = "\<lambda>i. (unat x + i mod unat w, unat y + i div unat w)"
  have iff: "(\<exists>i \<in> set [0..<?n]. in_panel (?cell i) \<and> ?cell i = (a, b)) \<longleftrightarrow>
      (unat x \<le> a \<and> a < unat x + unat w \<and> unat y \<le> b \<and> b < unat y + unat h)"
  proof
    assume "\<exists>i \<in> set [0..<?n]. in_panel (?cell i) \<and> ?cell i = (a, b)"
    then obtain i where i: "i < ?n" "a = unat x + i mod unat w" "b = unat y + i div unat w"
      by auto
    have "i mod unat w < unat w" using assms by simp
    moreover have "i div unat w < unat h"
      using i assms by (simp add: less_mult_imp_div_less mult.commute)
    ultimately show "unat x \<le> a \<and> a < unat x + unat w \<and> unat y \<le> b \<and> b < unat y + unat h"
      using i by simp
  next
    assume r: "unat x \<le> a \<and> a < unat x + unat w \<and> unat y \<le> b \<and> b < unat y + unat h"
    let ?i = "(b - unat y) * unat w + (a - unat x)"
    have lt: "a - unat x < unat w" using r by auto
    have "?i < (b - unat y) * unat w + unat w" using lt by simp
    also have "\<dots> = (Suc (b - unat y)) * unat w" by simp
    also have "\<dots> \<le> unat h * unat w"
      using r by (intro mult_le_mono1) auto
    finally have "?i < ?n" by (simp add: mult.commute)
    moreover have "?i mod unat w = a - unat x" using lt by simp
    moreover have "?i div unat w = b - unat y" using lt by simp
    ultimately have "?i \<in> set [0..<?n] \<and> in_panel (?cell ?i) \<and> ?cell ?i = (a, b)"
      using r assms fill_rect_cells_in_panel [OF assms(1,3,4), of ?i] by simp
    then show "\<exists>i \<in> set [0..<?n]. in_panel (?cell i) \<and> ?cell i = (a, b)"
      by blast
  qed
  have "surface (gc_run (tft_fill_rect x y w h c) s) (a, b) =
      stream_surface (window_state x y w h s) c [0..<?n] (a, b)"
    by (simp add: gc_run_fill_rect [OF assms(1,2) big])
  also have "\<dots> = (if \<exists>i \<in> set [0..<?n]. in_panel (?cell i) \<and> ?cell i = (a, b) then c
      else surface s (a, b))"
    by (simp only: stream_surface_apply cell_of_window_state [OF assms(1) big(1)]
        surface_window_state)
  finally show ?thesis
    by (simp only: iff)
qed

lemma init_display_keeps_pixels:
  "pixel_log (gc_run initDisplay s) = pixel_log s"
  "surface (gc_run initDisplay s) = surface s"
  by (simp_all add: initDisplay_def tft_send_cmd_def tft_send_data_def gc_run_def
      gc_command_def gc_data_def)

lemma fill_rect_full_screen:
  fixes s :: gc9a01
  defines "s' \<equiv> gc_run (initDisplay @ tft_fill_rect 0 0 240 240 0x0000 @ tft_fill_rect 0 0 240 240 0xFFFF) s"
  shows "pixel_log s' = pixel_log s @
           map (\<lambda>i. ((i mod 240, i div 240), 0x0000)) [0..<240 * 240] @
           map (\<lambda>i. ((i mod 240, i div 240), 0xFFFF)) [0..<240 * 240]"
    and "a < 240 \<Longrightarrow> b < 240 \<Longrightarrow> surface s' (a, b) = 0xFFFF"
proof -
  have b: "1 \<le> unat (240 :: u16)" "unat (0 :: u16) + unat (240 :: u16) \<le> 240"
    by simp_all
  note pl = fill_rect_pixel_log [OF b(1) b(1) b(2) b(2)]
  note sf = fill_rect_surface [OF b(1) b(1) b(2) b(2)]
  show "pixel_log s' = pixel_log s @
           map (\<lambda>i. ((i mod 240, i div 240), 0x0000)) [0..<240 * 240] @
           map (\<lambda>i. ((i mod 240, i div 240), 0xFFFF)) [0..<240 * 240]"
    unfolding s'_def gc_run_append pl
    by (simp add: init_display_keeps_pixels)
  show "surface s' (a, b) = 0xFFFF" if "a < 240" "b < 240"
    unfolding s'_def gc_run_append sf
    using that by simp
qed


section \<open>The full-screen fill of HelloWorld.ino\<close>

lemma tft_fill_screen_unfold:
  "tft_fill_screen color =
     (tft_send_cmd 0x2A @ tft_send_data 0x00 @ tft_send_data 0x00 @
      tft_send_data 0x00 @ tft_send_data 0xF0 @
      tft_send_cmd 0x2B @ tft_send_data 0x00 @ tft_send_data 0x00 @
      tft_send_data 0x00 @ tft_send_data 0xF0 @
      tft_send_cmd 0x2C @ [DigitalWrite TFT_DC HIGH, DigitalWrite TFT_CS LOW]) @
     concat (replicate 57600 [Transfer (hi8 color), Transfer (lo8 color)]) @
     [DigitalWrite TFT_CS HIGH]"
proof -
  have n: "unat (to_u32 (TFT_WIDTH * TFT_HEIGHT)) - unat (0 :: u32) = 57600"
    by (simp add: to_u32_def)
  have b: "to_u8 (drop_bit 8 TFT_WIDTH AND 0xFF) = 0x00" "to_u8 (TFT_WIDTH AND 0xFF) = 0xF0"
    by (simp_all add: to_u8_def drop_bit_eq_div)
  show ?thesis
    unfolding tft_fill_screen_def Let_def fill_loop_replicate n b to_u8_hi to_u8_lo
    by simp
qed

lemma gc_run_fill_screen_window:
  "gc_run (tft_send_cmd 0x2A @ tft_send_data 0x00 @ tft_send_data 0x00 @
      tft_send_data 0x00 @ tft_send_data 0xF0 @
      tft_send_cmd 0x2B @ tft_send_data 0x00 @ tft_send_data 0x00 @
      tft_send_data 0x00 @ tft_send_data 0xF0 @
      tft_send_cmd 0x2C @ [DigitalWrite TFT_DC HIGH, DigitalWrite TFT_CS LOW]) s
   = screen_window_state s"
  by (simp add: tft_send_cmd_def tft_send_data_def gc_run_def gc_command_def gc_data_def
      be16_def screen_window_state_def)

lemma gc_run_fill_screen:
  "gc_run (tft_fill_screen c) s =
    (screen_window_state s)
      \<lparr>pin_cs := HIGH, ram_pos := 57600,
       surface := stream_surface (screen_window_state s) c [0..<57600],
       pixel_log := pixel_log s @ stream_cells (screen_window_state s) c [0..<57600],
       rx_log := rx_log (screen_window_state s) @
         concat (replicate 57600 [Dat (hi8 c), Dat (lo8 c)])\<rparr>"
proof -
  let ?s2 = "screen_window_state s"
  have ww: "window_width ?s2 = 241" and wh: "window_height ?s2 = 241"
    by (simp_all add: screen_window_state_def window_width_def window_height_def)
  have stream: "gc_run (concat (replicate 57600 [Transfer (hi8 c), Transfer (lo8 c)])) ?s2 =
      ?s2\<lparr>ram_pos := (0 + 57600) mod (window_width ?s2 * window_height ?s2),
        surface := stream_surface ?s2 (word_cat (hi8 c) (lo8 c)) [0..<0 + 57600],
        pixel_log := pixel_log ?s2 @ stream_cells ?s2 (word_cat (hi8 c) (lo8 c)) [0..<0 + 57600],
        rx_log := rx_log ?s2 @ concat (replicate 57600 [Dat (hi8 c), Dat (lo8 c)])\<rparr>"
    by (rule gc_run_stream) (simp_all add: ww wh, simp_all add: screen_window_state_def)
  let ?A = "tft_send_cmd 0x2A @ tft_send_data 0x00 @ tft_send_data 0x00 @
      tft_send_data 0x00 @ tft_send_data 0xF0 @
      tft_send_cmd 0x2B @ tft_send_data 0x00 @ tft_send_data 0x00 @
      tft_send_data 0x00 @ tft_send_data 0xF0 @
      tft_send_cmd 0x2C @ [DigitalWrite TFT_DC HIGH, DigitalWrite TFT_CS LOW]"
  let ?B = "concat (replicate 57600 [Transfer (hi8 c), Transfer (lo8 c)])"
  have "gc_run (tft_fill_screen c) s = gc_run [DigitalWrite TFT_CS HIGH] (gc_run ?B (gc_run ?A s))"
    by (simp only: tft_fill_screen_unfold gc_run_append [of ?A] gc_run_append [of ?B])
  also have "\<dots> = gc_run [DigitalWrite TFT_CS HIGH]
      (?s2\<lparr>ram_pos := (0 + 57600) mod (window_width ?s2 * window_height ?s2),
        surface := stream_surface ?s2 (word_cat (hi8 c) (lo8 c)) [0..<0 + 57600],
        pixel_log := pixel_log ?s2 @ stream_cells ?s2 (word_cat (hi8 c) (lo8 c)) [0..<0 + 57600],
        rx_log := rx_log ?s2 @ concat (replicate 57600 [Dat (hi8 c), Dat (lo8 c)])\<rparr>)"
    by (simp only: gc_run_fill_screen_window stream)
  also have "\<dots> = ?s2
      \<lparr>pin_cs := HIGH, ram_pos := 57600,
       surface := stream_surface ?s2 c [0..<57600],
       pixel_log := pixel_log s @ stream_cells ?s2 c [0..<57600],
       rx_log := rx_log ?s2 @ concat (replicate 57600 [Dat (hi8 c), Dat (lo8 c)])\<rparr>"
    by (simp add: gc_run_def ww wh word_cat_hi_lo) (simp add: screen_window_state_def)
  finally show ?thesis .
qed

lemma fill_screen_misses_cell:
  "surface (gc_run (tft_fill_screen c) s) (1, 239) = surface s (1, 239)"
proof -
  let ?s2 = "screen_window_state s"
  have cell: "cell_of ?s2 i = (i mod 241, i div 241)" for i
    by (simp add: cell_of_def window_width_def screen_window_state_def)
  have no: "\<not> (\<exists>i \<in> set [0..<57600]. in_panel (cell_of ?s2 i) \<and> cell_of ?s2 i = (1, 239))"
  proof
    assume "\<exists>i \<in> set [0..<57600]. in_panel (cell_of ?s2 i) \<and> cell_of ?s2 i = (1, 239)"
    then obtain i :: nat where i: "i < 57600" "i mod 241 = 1" "i div 241 = 239"
      by (auto simp add: cell)
    have "i = 241 * (i div 241) + i mod 241" by simp
    with i show False by simp
  qed
  have "surface (gc_run (tft_fill_screen c) s) (1, 239) = stream_surface ?s2 c [0..<57600] (1, 239)"
    by (simp add: gc_run_fill_screen)
  also have "\<dots> = surface ?s2 (1, 239)"
    using no by (simp only: stream_surface_apply if_False)
  finally show ?thesis
    by (simp add: screen_window_state_def)
qed

section \<open>Controller initialisation\<close>

lemma gc_run_tft_init:
  "gc_run tft_init s =
     s\<lparr>pin_dc := LOW, pin_cs := HIGH, cur_cmd := 0x29, params := [], ram_pos := 0,
       pending_hi := None,
       rx_log := rx_log s @
     [
Wait 200, Cmd 0x00, Cmd 0xEF, Cmd 0xEB, Dat 0x14, Cmd 0xFE, Cmd 0xEF, Cmd 0xEB,
      Dat 0x14, Cmd 0x84, Dat 0x40, Cmd 0x85, Dat 0xFF, Cmd 0x86, Dat 0xFF, Cmd 0x87,
      Dat 0xFF, Cmd 0x88, Dat 0x0A, Cmd 0x89, Dat 0x21, Cmd 0x8A, Dat 0x00, Cmd 0x8B,
      Dat 0x80, Cmd 0x8C, Dat 0x01, Cmd 0x8D, Dat 0x01, Cmd 0x8E, Dat 0xFF, Cmd 0x8F,
      Dat 0xFF, Cmd 0xB6, Dat 0x00, Dat 0x20, Cmd 0x36, Dat 0x08, Cmd 0x3A, Dat 0x05,
      Cmd 0x90, Dat 0x08, Dat 0x08, Dat 0x08, Dat 0x08, Cmd 0xBD, Dat 0x06, Cmd 0xBC,
      Dat 0x00, Cmd 0xFF, Dat 0x60, Dat 0x01, Dat 0x04, Cmd 0xC3, Dat 0x13, Cmd 0xC4,
      Dat 0x13, Cmd 0xC9, Dat 0x22, Cmd 0xBE, Dat 0x11, Cmd 0xE1, Dat 0x10, Dat 0x0E,
      Cmd 0xDF, Dat 0x21, Dat 0x0C, Dat 0x02, Cmd 0xF0, Dat 0x45, Dat 0x09, Dat 0x08,
      Dat 0x08, Dat 0x26, Dat 0x2A, Cmd 0xF1, Dat 0x43, Dat 0x70, Dat 0x72, Dat 0x36,
      Dat 0x37, Dat 0x6F, Cmd 0xF2, Dat 0x45, Dat 0x09, Dat 0x08, Dat 0x08, Dat 0x26,
      Dat 0x2A, Cmd 0xF3, Dat 0x43, Dat 0x70, Dat 0x72, Dat 0x36, Dat 0x37, Dat 0x6F,
      Cmd 0xED, Dat 0x1B, Dat 0x0B, Cmd 0xAE, Dat 0x77, Cmd 0xCD, Dat 0x63, Cmd 0x70,
      Dat 0x07, Dat 0x07, Dat 0x04, Dat 0x0E, Dat 0x0F, Dat 0x09, Dat 0x07, Dat 0x08,
      Dat 0x03, Cmd 0xE8, Dat 0x34, Cmd 0x62, Dat 0x18, Dat 0x0D, Dat 0x71, Dat 0xED,
      Dat 0x70, Dat 0x70, Dat 0x18, Dat 0x0F, Dat 0x71, Dat 0xEF, Dat 0x70, Dat 0x70,
      Cmd 0x63, Dat 0x18, Dat 0x11, Dat 0x71, Dat 0xF1, Dat 0x70, Dat 0x70, Dat 0x18,
      Dat 0x13, Dat 0x71, Dat 0xF3, Dat 0x70, Dat 0x70, Cmd 0x64, Dat 0x28, Dat 0x29,
      Dat 0xF1, Dat 0x01, Dat 0xF1, Dat 0x00, Dat 0x07, Cmd 0x66, Dat 0x3C, Dat 0x00,
      Dat 0xCD, Dat 0x67, Dat 0x45, Dat 0x45, Dat 0x10, Dat 0x00, Dat 0x00, Dat 0x00,
      Cmd 0x67, Dat 0x00, Dat 0x3C, Dat 0x00, Dat 0x00, Dat 0x00, Dat 0x01, Dat 0x54,
      Dat 0x10, Dat 0x32, Dat 0x98, Cmd 0x74, Dat 0x10, Dat 0x85, Dat 0x80, Dat 0x00,
      Dat 0x00, Dat 0x4E, Dat 0x00, Cmd 0x98, Dat 0x3E, Dat 0x07, Cmd 0x35, Cmd 0x21,
      Cmd 0x11, Wait 120, Cmd 0x29, Wait 20]\<rparr>"
  by (simp add: tft_init_def tft_send_cmd_def tft_send_data_def gc_run_def
      gc_command_def gc_data_def)

lemma gc_run_initDisplay:
  "gc_run initDisplay s =
     s\<lparr>pin_dc := LOW, pin_cs := HIGH, cur_cmd := 0x29, params := [], ram_pos := 0,
       pending_hi := None,
       rx_log := rx_log s @
         [Wait 200, Cmd 0xEF, Cmd 0xEB, Dat 0x14, Cmd 0xFE, Cmd 0xEF, Cmd 0x3A, Dat 0x05,
          Cmd 0x11, Wait 120, Cmd 0x29, Wait 20]\<rparr>"
  by (simp add: initDisplay_def tft_send_cmd_def tft_send_data_def gc_run_def
      gc_command_def gc_data_def)

text \<open>
  Claim C9. In both initialisation sequences of the sketches (\<open>tft_init\<close> of
  HelloWorld.ino, \<open>initDisplay\<close> of DigitalMeters.ino) the sleep-out command
  \<open>0x11\<close> is directly followed by a delay of at least 120 ms and the display-on command
  \<open>0x29\<close> by a delay of at least 20 ms, before anything else goes over the bus; each of
  the two commands is sent once, \<open>0x11\<close> before \<open>0x29\<close>.
\<close>

theorem init_delays:
  "delay_follows 0x11 120 (rx_log (gc_run tft_init gc_power_on)) \<and>
   delay_follows 0x29 20 (rx_log (gc_run tft_init gc_power_on)) \<and>
   wake_commands (rx_log (gc_run tft_init gc_power_on)) = [Cmd 0x11, Cmd 0x29] \<and>
   delay_follows 0x11 120 (rx_log (gc_run initDisplay gc_power_on)) \<and>
   delay_follows 0x29 20 (rx_log (gc_run initDisplay gc_power_on)) \<and>
   wake_commands (rx_log (gc_run initDisplay gc_power_on)) = [Cmd 0x11, Cmd 0x29]"
  by (simp add: gc_run_tft_init gc_run_initDisplay wake_commands_def gc_power_on_def)

section \<open>The end-to-end fill scenario\<close>

lemma fill_screen_bus_trace:
  "rx_log (gc_run (tft_fill_screen c) s) = rx_log s @
     [Cmd 0x2A, Dat 0x00, Dat 0x00, Dat 0x00, Dat 0xF0,
      Cmd 0x2B, Dat 0x00, Dat 0x00, Dat 0x00, Dat 0xF0, Cmd 0x2C] @
     concat (replicate 57600 [Dat (hi8 c), Dat (lo8 c)])"
  by (simp add: gc_run_fill_screen screen_window_state_def)

lemma fill_screen_window:
  "col_end (gc_run (tft_fill_screen c) s) = 240"
  "row_end (gc_run (tft_fill_screen c) s) = 240"
  by (simp_all add: gc_run_fill_screen screen_window_state_def)

lemma fill_rect_window:
  "col_end (gc_run (tft_fill_rect 0 0 240 240 c) s) = 239"
  "row_end (gc_run (tft_fill_rect 0 0 240 240 c) s) = 239"
proof -
  have b: "1 \<le> unat (240 :: u16)" "unat (0 :: u16) + unat (240 :: u16) \<le> 65536"
    by simp_all
  show "col_end (gc_run (tft_fill_rect 0 0 240 240 c) s) = 239"
    "row_end (gc_run (tft_fill_rect 0 0 240 240 c) s) = 239"
    by (simp_all add: gc_run_fill_rect [OF b(1) b(1) b(2) b(2)] window_state_def)
qed

text \<open>
  Claim C2. After the controller is initialised, a full-screen fill with \<open>0x0000\<close>
  followed by one with \<open>0xFFFF\<close> sends \<open>240 * 240\<close> black pixels and then
  \<open>240 * 240\<close> white pixels, and should leave every cell of the \<open>240 \<times> 240\<close>
  surface white. With \<open>tft_fill_rect(0, 0, 240, 240, c)\<close> (DigitalMeters.ino) it does:
  \<open>fill_rect_full_screen\<close> above. \<open>tft_fill_screen\<close> (HelloWorld.ino) streams the
  same pixels (\<open>fill_screen_bus_trace\<close>) but programs the window's end column and end
  row as 240 instead of 239, so the stream of 57600 pixels runs through a window of
  \<open>241 \<times> 241\<close> cells and stops at cell \<open>(0, 239)\<close>: cell \<open>(1, 239)\<close> is never
  written and still holds its power-on value after both fills.
\<close>

theorem fill_screen_leaves_bottom_row:
  "col_end (gc_run (tft_init @ tft_fill_screen 0x0000 @ tft_fill_screen 0xFFFF) gc_power_on) = 240 \<and>
   row_end (gc_run (tft_init @ tft_fill_screen 0x0000 @ tft_fill_screen 0xFFFF) gc_power_on) = 240 \<and>
   surface (gc_run (tft_init @ tft_fill_screen 0x0000 @ tft_fill_screen 0xFFFF) gc_power_on) (1, 239)
     = 0x0000 \<and>
   col_end (gc_run (initDisplay @ tft_fill_rect 0 0 240 240 0x0000 @ tft_fill_rect 0 0 240 240 0xFFFF)
     gc_power_on) = 239 \<and>
   surface (gc_run (initDisplay @ tft_fill_rect 0 0 240 240 0x0000 @ tft_fill_rect 0 0 240 240 0xFFFF)
     gc_power_on) (1, 239) = 0xFFFF"
proof -
  have "surface (gc_run tft_init gc_power_on) (1, 239) = 0"
    by (simp add: gc_run_tft_init gc_power_on_def)
  then have "surface (gc_run (tft_init @ tft_fill_screen 0x0000 @ tft_fill_screen 0xFFFF) gc_power_on) (1, 239)
     = 0x0000"
    by (simp only: gc_run_append fill_screen_misses_cell)
  moreover have "surface (gc_run (initDisplay @ tft_fill_rect 0 0 240 240 0x0000 @ tft_fill_rect 0 0 240 240 0xFFFF)
     gc_power_on) (1, 239) = 0xFFFF"
    by (rule fill_rect_full_screen(2)) simp_all
  ultimately show ?thesis
    by (simp only: gc_run_append fill_screen_window fill_rect_window simp_thms)
qed

section \<open>Lines\<close>

lemma draw_line_swap_endpoints:
  "tft_draw_line x0 y0 x1 y1 color = tft_draw_line x1 y1 x0 y0 color"
proof -
  have sym: "\<bar>uint y0 - uint y1\<bar> = \<bar>uint y1 - uint y0\<bar>" "\<bar>uint x0 - uint x1\<bar> = \<bar>uint x1 - uint x0\<bar>"
    by simp_all
  show ?thesis
  proof (cases "\<bar>uint y1 - uint y0\<bar> > \<bar>uint x1 - uint x0\<bar>")
    case True
    then have "uint y0 \<noteq> uint y1" by auto
    then consider "uint y0 < uint y1" | "uint y1 < uint y0" by linarith
    then show ?thesis
      by cases (use True in \<open>simp_all add: tft_draw_line_def sym\<close>)
  next
    case False
    consider "uint x0 < uint x1" | "uint x1 < uint x0" | "uint x0 = uint x1" by linarith
    then show ?thesis
    proof cases
      case 3
      with False have "uint y0 = uint y1" by simp
      with 3 have "x0 = x1" "y0 = y1" by (simp_all add: word_uint_eq_iff)
      then show ?thesis by simp
    qed (use False in \<open>simp_all add: tft_draw_line_def sym\<close>)
  qed
qed


lemma uint_to_u16: "0 \<le> a \<Longrightarrow> a < 65536 \<Longrightarrow> uint (to_u16 a) = a"
  by (simp add: to_u16_def uint_word_of_int take_bit_int_eq_self)

lemma sint_to_i16: "- 32768 \<le> a \<Longrightarrow> a < 32768 \<Longrightarrow> sint (to_i16 a) = a"
  by (simp add: to_i16_def sint_sbintrunc' signed_take_bit_int_eq_self)

lemma to_u16_step: "to_u16 (uint (to_u16 y) + k) = to_u16 (y + k)"
  by (simp add: to_u16_def)

lemma line_loop_refines:
  assumes "0 \<le> dy" "dy \<le> dx" "dx < 16384" "ystep = 1 \<or> ystep = - 1" "0 \<le> x1" "x1 < 65535"
  shows "0 \<le> x \<Longrightarrow> x \<le> x1 + 1 \<Longrightarrow> 0 \<le> err \<Longrightarrow> err \<le> dx \<Longrightarrow>
     line_loop steep (to_u16 x) (to_u16 y) (to_u16 x1) (to_i16 dx) (to_i16 dy) (to_i16 err)
       (to_i16 ystep) color
     = Some (concat (map (\<lambda>(a, b). tft_draw_pixel (to_u16 a) (to_u16 b) color)
         (bres_walk steep x y x1 dx dy err ystep)))"
  using assms
proof (induction steep x y x1 dx dy err ystep rule: bres_walk.induct)
  case (1 steep x y x1 dx dy err ystep)
  have ux: "uint (to_u16 x) = x" and ux1: "uint (to_u16 x1) = x1"
    using 1 by (simp_all add: uint_to_u16)
  have sdx: "sint (to_i16 dx) = dx" and sdy: "sint (to_i16 dy) = dy"
    and serr: "sint (to_i16 err) = err" and sys: "sint (to_i16 ystep) = ystep"
    using 1 by (auto simp add: sint_to_i16)
  have serr1: "sint (to_i16 (err - dy)) = err - dy"
    using 1 by (simp add: sint_to_i16)
  show ?case
  proof (cases "x \<le> x1")
    case False
    then show ?thesis
      by (subst line_loop.simps, subst bres_walk.simps) (simp add: ux ux1)
  next
    case True
    show ?thesis
    proof (cases "err - dy < 0")
      case neg: True
      have ih: "line_loop steep (to_u16 (x + 1)) (to_u16 (y + ystep)) (to_u16 x1) (to_i16 dx)
          (to_i16 dy) (to_i16 (err - dy + dx)) (to_i16 ystep) color
        = Some (concat (map (\<lambda>(a, b). tft_draw_pixel (to_u16 a) (to_u16 b) color)
            (bres_walk steep (x + 1) (y + ystep) x1 dx dy (err - dy + dx) ystep)))"
        using 1 True neg by (intro "1.IH"(1)) auto
      show ?thesis
        using True neg
        by (subst line_loop.simps, subst bres_walk.simps)
          (simp add: ux ux1 sdx sdy serr sys serr1 Let_def to_u16_step ih)
    next
      case pos: False
      have ih: "line_loop steep (to_u16 (x + 1)) (to_u16 y) (to_u16 x1) (to_i16 dx)
          (to_i16 dy) (to_i16 (err - dy)) (to_i16 ystep) color
        = Some (concat (map (\<lambda>(a, b). tft_draw_pixel (to_u16 a) (to_u16 b) color)
            (bres_walk steep (x + 1) y x1 dx dy (err - dy) ystep)))"
        using 1 True pos by (intro "1.IH"(2)) auto
      show ?thesis
        using True pos
        by (subst line_loop.simps, subst bres_walk.simps)
          (simp add: ux ux1 sdx sdy serr sys serr1 Let_def to_u16_step ih)
    qed
  qed
qed

lemma bres_walk_steep:
  "bres_walk True x y x1 dx dy err ystep = map prod.swap (bres_walk False x y x1 dx dy err ystep)"
proof (induction False x y x1 dx dy err ystep rule: bres_walk.induct)
  case (1 x y x1 dx dy err ystep)
  show ?case
    by (subst bres_walk.simps, subst (2) bres_walk.simps) (use 1 in auto)
qed

lemma bres_walk_points:
  assumes "0 < dx" "0 \<le> dy" "dy \<le> dx" "ystep = 1 \<or> ystep = - 1"
  shows "0 \<le> err \<Longrightarrow> err < dx \<Longrightarrow>
     err + ((y1 - y) * ystep) * dx = dx div 2 + (x1 - x) * dy \<Longrightarrow>
     (y1 - y) * ystep \<le> dy \<Longrightarrow>
     (p, r) \<in> set (bres_walk False x y x1 dx dy err ystep) \<Longrightarrow>
     x \<le> p \<and> p \<le> x1 \<and> 0 \<le> (y1 - r) * ystep \<and> (y1 - r) * ystep \<le> dy"
  using assms
proof (induction False x y x1 dx dy err ystep rule: bres_walk.induct)
  case (1 x y x1 dx dy err ystep)
  show ?case
  proof (cases "x \<le> x1")
    case False
    with "1.prems"(5) show ?thesis
      by (subst (asm) bres_walk.simps) simp
  next
    case True
    have sq: "ystep * ystep = 1"
      using "1.prems" by auto
    define q where "q = (y1 - y) * ystep"
    have inv: "err + q * dx = dx div 2 + (x1 - x) * dy"
      using "1.prems"(3) by (simp add: q_def)
    have q0: "0 \<le> q"
    proof (rule ccontr)
      assume "\<not> 0 \<le> q"
      then have "q \<le> - 1" by simp
      then have "q * dx \<le> - 1 * dx"
        using "1.prems"(6) by (intro mult_right_mono) simp_all
      moreover have "0 \<le> (x1 - x) * dy"
        using True "1.prems"(7) by simp
      moreover have "0 \<le> dx div 2"
        using "1.prems"(6) by simp
      ultimately show False
        using inv "1.prems"(2) by linarith
    qed
    have head: "x \<le> x \<and> x \<le> x1 \<and> 0 \<le> (y1 - y) * ystep \<and> (y1 - y) * ystep \<le> dy"
      using True q0 "1.prems"(4) by (simp add: q_def)
    from "1.prems"(5) consider "(p, r) = (x, y)"
      | "err - dy < 0" "(p, r) \<in> set (bres_walk False (x + 1) (y + ystep) x1 dx dy (err - dy + dx) ystep)"
      | "\<not> err - dy < 0" "(p, r) \<in> set (bres_walk False (x + 1) y x1 dx dy (err - dy) ystep)"
      using True by (subst (asm) bres_walk.simps) (auto split: if_splits)
    then show ?thesis
    proof cases
      case 1
      with head show ?thesis by simp
    next
      case 2
      have lt: "x < x1"
      proof (rule ccontr)
        assume "\<not> x < x1"
        then have "\<not> x + 1 \<le> x1" by simp
        then have "bres_walk False (x + 1) (y + ystep) x1 dx dy (err - dy + dx) ystep = []"
          by (subst bres_walk.simps) simp
        with 2(2) show False by simp
      qed
      have q1: "1 \<le> q"
      proof (rule ccontr)
        assume "\<not> 1 \<le> q"
        with q0 have "q = 0" by simp
        with inv have e: "err = dx div 2 + (x1 - x) * dy" by simp
        have "1 * dy \<le> (x1 - x) * dy"
          using lt "1.prems"(7) by (intro mult_right_mono) simp_all
        moreover have "0 \<le> dx div 2" using "1.prems"(6) by simp
        ultimately show False
          using 2(1) e by linarith
      qed
      have qs: "(y1 - (y + ystep)) * ystep = q - 1"
        using sq by (simp add: q_def algebra_simps)
      have inv': "err - dy + dx + ((y1 - (y + ystep)) * ystep) * dx = dx div 2 + (x1 - (x + 1)) * dy"
        unfolding qs using inv by (simp add: algebra_simps)
      have "x + 1 \<le> p \<and> p \<le> x1 \<and> 0 \<le> (y1 - r) * ystep \<and> (y1 - r) * ystep \<le> dy"
      proof (rule "1.hyps"(1) [OF True 2(1) _ _ inv' _ 2(2)])
        show "0 \<le> err - dy + dx" using "1.prems"(1,8) by linarith
        show "err - dy + dx < dx" using 2(1) by linarith
        show "(y1 - (y + ystep)) * ystep \<le> dy"
          unfolding qs using "1.prems"(4) by (simp add: q_def)
      qed (use "1.prems" in simp_all)
      then show ?thesis by simp
    next
      case 3
      have inv': "err - dy + ((y1 - y) * ystep) * dx = dx div 2 + (x1 - (x + 1)) * dy"
        using inv by (simp add: q_def algebra_simps)
      have "x + 1 \<le> p \<and> p \<le> x1 \<and> 0 \<le> (y1 - r) * ystep \<and> (y1 - r) * ystep \<le> dy"
      proof (rule "1.hyps"(2) [OF True 3(1) _ _ inv' _ 3(2)])
        show "0 \<le> err - dy" using 3(1) by linarith
        show "err - dy < dx" using "1.prems"(2,7) by linarith
        show "(y1 - y) * ystep \<le> dy" using "1.prems"(4) .
      qed (use "1.prems" in simp_all)
      then show ?thesis by simp
    qed
  qed
qed

lemma walk_in_box:
  assumes "0 \<le> a0" "a0 \<le> a1" "a1 < 240" "0 \<le> b0" "b0 < 240" "0 \<le> b1" "b1 < 240"
    and "\<bar>b1 - b0\<bar> \<le> a1 - a0"
    and "(p, r) \<in> set (bres_walk False a0 b0 a1 (a1 - a0) \<bar>b1 - b0\<bar> ((a1 - a0) div 2)
          (if b0 < b1 then 1 else - 1))"
  shows "0 \<le> p \<and> p < 240 \<and> 0 \<le> r \<and> r < 240"
proof (cases "a1 - a0 = 0")
  case True
  then have eq: "a1 = a0" "b1 = b0"
    using assms(8) by simp_all
  have "bres_walk False a0 b0 a0 0 0 0 (- 1) = [(a0, b0)]"
    by (subst bres_walk.simps, subst bres_walk.simps) simp
  with assms(9) eq have "(p, r) = (a0, b0)"
    by simp
  with assms eq show ?thesis by simp
next
  case False
  let ?dx = "a1 - a0" and ?dy = "\<bar>b1 - b0\<bar>" and ?ys = "if b0 < b1 then 1 else - 1 :: int"
  have dx: "0 < ?dx" using False assms(2) by simp
  have rise: "(b1 - b0) * ?ys = ?dy" by simp
  have "a0 \<le> p \<and> p \<le> a1 \<and> 0 \<le> (b1 - r) * ?ys \<and> (b1 - r) * ?ys \<le> ?dy"
  proof (rule bres_walk_points [OF dx _ assms(8) _ _ _ _ _ assms(9)])
    show "?ys = 1 \<or> ?ys = - 1" by simp
    show "0 \<le> ?dx div 2" using dx by simp
    show "?dx div 2 < ?dx" using dx by simp
    show "?dx div 2 + (b1 - b0) * ?ys * ?dx = ?dx div 2 + (a1 - a0) * ?dy"
      unfolding rise by (simp add: mult.commute)
    show "(b1 - b0) * ?ys \<le> ?dy" by simp
  qed simp
  then show ?thesis
    using assms(1-7) by (auto split: if_splits)
qed

lemma walk_in_box_steep:
  assumes "0 \<le> a0" "a0 \<le> a1" "a1 < 240" "0 \<le> b0" "b0 < 240" "0 \<le> b1" "b1 < 240"
    and "\<bar>b1 - b0\<bar> \<le> a1 - a0"
    and "(p, r) \<in> set (bres_walk steep a0 b0 a1 (a1 - a0) \<bar>b1 - b0\<bar> ((a1 - a0) div 2)
          (if b0 < b1 then 1 else - 1))"
  shows "0 \<le> p \<and> p < 240 \<and> 0 \<le> r \<and> r < 240"
proof (cases steep)
  case False
  with assms show ?thesis
    using walk_in_box [of a0 a1 b0 b1 p r] by simp
next
  case True
  with assms(9) have "(r, p) \<in> set (bres_walk False a0 b0 a1 (a1 - a0) \<bar>b1 - b0\<bar> ((a1 - a0) div 2)
          (if b0 < b1 then 1 else - 1))"
    by (auto simp add: bres_walk_steep)
  then show ?thesis
    using walk_in_box [OF assms(1-8), of r p] by simp
qed

lemma reference_in_panel:
  assumes "0 \<le> x0" "x0 < 240" "0 \<le> y0" "y0 < 240" "0 \<le> x1" "x1 < 240" "0 \<le> y1" "y1 < 240"
    and "(p, r) \<in> set (bresenham_reference (x0, y0) (x1, y1))"
  shows "0 \<le> p \<and> p < 240 \<and> 0 \<le> r \<and> r < 240"
proof -
  consider (a) "\<bar>y1 - y0\<bar> > \<bar>x1 - x0\<bar>" "y0 > y1"
    | (b) "\<bar>y1 - y0\<bar> > \<bar>x1 - x0\<bar>" "\<not> y0 > y1"
    | (c) "\<not> \<bar>y1 - y0\<bar> > \<bar>x1 - x0\<bar>" "x0 > x1"
    | (d) "\<not> \<bar>y1 - y0\<bar> > \<bar>x1 - x0\<bar>" "\<not> x0 > x1"
    by blast
  then show ?thesis
  proof cases
    case a
    with assms(9) have "(p, r) \<in> set (bres_walk True y1 x1 y0 (y0 - y1) \<bar>x0 - x1\<bar> ((y0 - y1) div 2)
        (if x1 < x0 then 1 else - 1))"
      by (simp add: bresenham_reference_def Let_def)
    then show ?thesis
      using a assms(1-8) by (intro walk_in_box_steep [of y1 y0 x1 x0 p r True]) simp_all
  next
    case b
    with assms(9) have "(p, r) \<in> set (bres_walk True y0 x0 y1 (y1 - y0) \<bar>x1 - x0\<bar> ((y1 - y0) div 2)
        (if x0 < x1 then 1 else - 1))"
      by (simp add: bresenham_reference_def Let_def)
    then show ?thesis
      using b assms(1-8) by (intro walk_in_box_steep [of y0 y1 x0 x1 p r True]) simp_all
  next
    case c
    with assms(9) have "(p, r) \<in> set (bres_walk False x1 y1 x0 (x0 - x1) \<bar>y0 - y1\<bar> ((x0 - x1) div 2)
        (if y1 < y0 then 1 else - 1))"
      by (simp add: bresenham_reference_def Let_def)
    then show ?thesis
      using c assms(1-8) by (intro walk_in_box_steep [of x1 x0 y1 y0 p r False]) simp_all
  next
    case d
    with assms(9) have "(p, r) \<in> set (bres_walk False x0 y0 x1 (x1 - x0) \<bar>y1 - y0\<bar> ((x1 - x0) div 2)
        (if y0 < y1 then 1 else - 1))"
      by (simp add: bresenham_reference_def Let_def)
    then show ?thesis
      using d assms(1-8) by (intro walk_in_box_steep [of x0 x1 y0 y1 p r False]) simp_all
  qed
qed

lemma to_u16_uint [simp]: "to_u16 (uint w) = w"
  by (simp add: to_u16_def)

lemma uint_lt_240:
  assumes "unat (w :: u16) < 240"
  shows "uint w < 240"
  using assms by (metis of_nat_less_numeral_iff of_nat_unat)

lemma c_div_2: "0 \<le> a \<Longrightarrow> c_div a 2 = a div 2"
  by (cases "a = 0") (simp_all add: c_div_def)

lemma draw_line_core:
  assumes "uint a0 \<le> uint a1" "uint a1 < 240" "uint b0 < 240" "uint b1 < 240"
    and "\<bar>uint b1 - uint b0\<bar> \<le> uint a1 - uint a0"
  shows "line_loop steep a0 b0 a1 (to_i16 (uint a1 - uint a0)) (to_i16 \<bar>uint b1 - uint b0\<bar>)
      (to_i16 (c_div (sint (to_i16 (uint a1 - uint a0))) 2))
      (if uint b0 < uint b1 then to_i16 1 else to_i16 (- 1)) color
    = Some (concat (map (\<lambda>(a, b). tft_draw_pixel (to_u16 a) (to_u16 b) color)
        (bres_walk steep (uint a0) (uint b0) (uint a1) (uint a1 - uint a0) \<bar>uint b1 - uint b0\<bar>
          ((uint a1 - uint a0) div 2) (if uint b0 < uint b1 then 1 else - 1))))"
proof -
  let ?dx = "uint a1 - uint a0"
  have dx: "0 \<le> ?dx" "?dx < 240"
    using assms uint_ge_0 [of a0] by linarith+
  have sdx: "sint (to_i16 ?dx) = ?dx"
    using dx by (simp add: sint_to_i16)
  have ys: "(if uint b0 < uint b1 then to_i16 1 else to_i16 (- 1))
      = to_i16 (if uint b0 < uint b1 then 1 else - 1)"
    by simp
  have "line_loop steep (to_u16 (uint a0)) (to_u16 (uint b0)) (to_u16 (uint a1)) (to_i16 ?dx)
      (to_i16 \<bar>uint b1 - uint b0\<bar>) (to_i16 (?dx div 2))
      (to_i16 (if uint b0 < uint b1 then 1 else - 1)) color
    = Some (concat (map (\<lambda>(a, b). tft_draw_pixel (to_u16 a) (to_u16 b) color)
        (bres_walk steep (uint a0) (uint b0) (uint a1) ?dx \<bar>uint b1 - uint b0\<bar>
          (?dx div 2) (if uint b0 < uint b1 then 1 else - 1))))"
    using assms dx by (intro line_loop_refines) auto
  then show ?thesis
    unfolding sdx c_div_2 [OF dx(1)] ys by simp
qed

lemma draw_line_reference:
  assumes "unat x0 < 240" "unat y0 < 240" "unat x1 < 240" "unat y1 < 240"
  shows "tft_draw_line x0 y0 x1 y1 color =
     Some (concat (map (\<lambda>(a, b). tft_draw_pixel (to_u16 a) (to_u16 b) color)
       (bresenham_reference (uint x0, uint y0) (uint x1, uint y1))))"
proof -
  note b = assms [THEN uint_lt_240]
  consider (a) "\<bar>uint y1 - uint y0\<bar> > \<bar>uint x1 - uint x0\<bar>" "uint y0 > uint y1"
    | (b) "\<bar>uint y1 - uint y0\<bar> > \<bar>uint x1 - uint x0\<bar>" "\<not> uint y0 > uint y1"
    | (c) "\<not> \<bar>uint y1 - uint y0\<bar> > \<bar>uint x1 - uint x0\<bar>" "uint x0 > uint x1"
    | (d) "\<not> \<bar>uint y1 - uint y0\<bar> > \<bar>uint x1 - uint x0\<bar>" "\<not> uint x0 > uint x1"
    by blast
  then show ?thesis
  proof cases
    case a
    have "\<bar>uint x0 - uint x1\<bar> \<le> uint y0 - uint y1" using a by linarith
    from draw_line_core [of y1 y0 x1 x0 True color, OF _ b(2) b(3) b(1) this] a
    show ?thesis
      by (simp add: tft_draw_line_def bresenham_reference_def Let_def)
  next
    case b
    have "\<bar>uint x1 - uint x0\<bar> \<le> uint y1 - uint y0" using b by linarith
    from draw_line_core [of y0 y1 x0 x1 True color, OF _ \<open>uint y1 < 240\<close> \<open>uint x0 < 240\<close> \<open>uint x1 < 240\<close> this] b
    show ?thesis
      by (simp add: tft_draw_line_def bresenham_reference_def Let_def)
  next
    case c
    have "\<bar>uint y0 - uint y1\<bar> \<le> uint x0 - uint x1" using c by linarith
    from draw_line_core [of x1 x0 y1 y0 False color, OF _ \<open>uint x0 < 240\<close> \<open>uint y1 < 240\<close> \<open>uint y0 < 240\<close> this] c
    show ?thesis
      by (simp add: tft_draw_line_def bresenham_reference_def Let_def)
  next
    case d
    have "\<bar>uint y1 - uint y0\<bar> \<le> uint x1 - uint x0" using d by linarith
    from draw_line_core [of x0 x1 y0 y1 False color, OF _ \<open>uint x1 < 240\<close> \<open>uint y0 < 240\<close> \<open>uint y1 < 240\<close> this] d
    show ?thesis
      by (simp add: tft_draw_line_def bresenham_reference_def Let_def)
  qed
qed

lemma unat_lt_240:
  assumes "uint (w :: u16) < 240"
  shows "unat w < 240"
  using assms by (metis of_nat_less_numeral_iff of_nat_unat)

lemma pixel_log_draw_pixel:
  "pixel_log (gc_run (tft_draw_pixel x y c) s) =
     pixel_log s @ (if uint x < 240 \<and> uint y < 240 then [((unat x, unat y), c)] else [])"
proof (cases "uint x < 240 \<and> uint y < 240")
  case False
  then show ?thesis
    by (auto simp add: tft_draw_pixel_def gc_run_Nil)
next
  case True
  then have "unat x < 240" "unat y < 240"
    by (simp_all add: unat_lt_240)
  then have b: "unat x + unat (1 :: u16) \<le> 240" "unat y + unat (1 :: u16) \<le> 240"
    by simp_all
  have one: "1 \<le> unat (1 :: u16)" by simp
  show ?thesis
    using True fill_rect_pixel_log [OF one one b, of c s]
    by (simp add: tft_draw_pixel_def)
qed

lemma pixel_log_draw_pixels:
  assumes "\<forall>(a, b) \<in> set pts. 0 \<le> a \<and> a < 240 \<and> 0 \<le> b \<and> b < 240"
  shows "pixel_log (gc_run (concat (map (\<lambda>(a, b). tft_draw_pixel (to_u16 a) (to_u16 b) c) pts)) s)
     = pixel_log s @ map (\<lambda>(a, b). ((nat a, nat b), c)) pts"
  using assms
proof (induction pts arbitrary: s)
  case Nil
  then show ?case by (simp add: gc_run_Nil)
next
  case (Cons pt pts)
  obtain a b where pt: "pt = (a, b)" by (cases pt)
  with Cons.prems have r: "0 \<le> a" "a < 240" "0 \<le> b" "b < 240"
    by simp_all
  then have u: "uint (to_u16 a) = a" "uint (to_u16 b) = b"
    by (simp_all add: uint_to_u16)
  then have n: "unat (to_u16 a) = nat a" "unat (to_u16 b) = nat b"
    by (simp_all only: unat_eq_nat_uint)
  show ?case
    using Cons r by (simp add: pt gc_run_append pixel_log_draw_pixel u n)
qed

lemma plotted_draw_pixels:
  assumes "\<forall>(a, b) \<in> set pts. 0 \<le> a \<and> a < 240 \<and> 0 \<le> b \<and> b < 240"
  shows "plotted (concat (map (\<lambda>(a, b). tft_draw_pixel (to_u16 a) (to_u16 b) c) pts))
     = (\<lambda>(a, b). (nat a, nat b)) ` set pts"
  by (force simp add: plotted_def pixel_log_draw_pixels [OF assms] gc_power_on_def image_iff)

text \<open>
  Claim C4. For every pair of endpoints in the panel, \<open>drawLine\<close> returns and the set
  of cells it writes is exactly the set of points of the reference Bresenham walk
  (steep slope transposed, endpoints swapped so that \<open>x0 \<le> x1\<close>, \<open>x\<close> walked from
  \<open>x0\<close> to \<open>x1\<close>, \<open>y\<close> stepped by \<open>\<plusminus>1\<close> when the accumulated error falls
  below zero).
\<close>

theorem drawLine_refines_bresenham:
  assumes "unat x0 < 240" "unat y0 < 240" "unat x1 < 240" "unat y1 < 240"
  shows "\<exists>bus. tft_draw_line x0 y0 x1 y1 color = Some bus \<and>
     plotted bus = (\<lambda>(a, b). (nat a, nat b)) `
       set (bresenham_reference (uint x0, uint y0) (uint x1, uint y1))"
proof -
  note b = assms [THEN uint_lt_240]
  have "\<forall>(p, r) \<in> set (bresenham_reference (uint x0, uint y0) (uint x1, uint y1)).
      0 \<le> p \<and> p < 240 \<and> 0 \<le> r \<and> r < 240"
    using reference_in_panel [OF _ b(1) _ b(2) _ b(3) _ b(4)] by auto
  then show ?thesis
    by (simp add: draw_line_reference [OF assms] plotted_draw_pixels)
qed

lemma reference_0_0_4_0:
  "bresenham_reference (0, 0) (4, 0) = [(0, 0), (1, 0), (2, 0), (3, 0), (4, 0)]"
  by (simp add: bresenham_reference_def bres_walk.simps)

theorem drawLine_refines_bresenham_witness:
  "\<exists>bus. tft_draw_line 0 0 4 0 0xF800 = Some bus \<and>
     plotted bus = {(0, 0), (1, 0), (2, 0), (3, 0), (4, 0)}"
proof -
  have "unat (0 :: u16) < 240" "unat (4 :: u16) < 240"
    by simp_all
  from drawLine_refines_bresenham [OF this(1) this(1) this(2) this(1), of "0xF800"]
  show ?thesis
    by (simp add: reference_0_0_4_0 insert_commute)
qed


text \<open>
  Claim C5. For every two endpoints \<open>a = (x0, y0)\<close> and \<open>b = (x1, y1)\<close> in the panel
  and every colour, \<open>drawLine(a, b)\<close> and \<open>drawLine(b, a)\<close> both return and write the
  same set of cells.
\<close>

theorem drawLine_symmetric:
  assumes "unat x0 < 240" "unat y0 < 240" "unat x1 < 240" "unat y1 < 240"
  shows "\<exists>ab ba. tft_draw_line x0 y0 x1 y1 color = Some ab \<and>
     tft_draw_line x1 y1 x0 y0 color = Some ba \<and> plotted ab = plotted ba"
  using draw_line_reference [OF assms, of color] draw_line_swap_endpoints [of x1 y1 x0 y0 color]
  by simp

theorem drawLine_symmetric_witness:
  "\<exists>ab ba. tft_draw_line 0 0 5 2 0x07E0 = Some ab \<and>
     tft_draw_line 5 2 0 0 0x07E0 = Some ba \<and> plotted ab = plotted ba"
proof -
  have "unat (0 :: u16) < 240" "unat (5 :: u16) < 240" "unat (2 :: u16) < 240"
    by simp_all
  from drawLine_symmetric [OF this(1) this(1) this(2) this(3), of "0x07E0"]
  show ?thesis .
qed

section \<open>Circles and coordinates off the panel\<close>

lemma circle_loop_walk:
  "circle_loop x0 y0 color x y err =
     concat (map (\<lambda>(a, b). tft_draw_pixel (to_u16 (uint x0 + a)) (to_u16 (uint y0 + b)) color)
       (circle_walk x y err))"
proof (induction x0 y0 color x y err rule: circle_loop.induct)
  case (1 x0 y0 color x y err)
  show ?case
  proof (cases "x \<ge> y")
    case False
    then show ?thesis
      by (subst circle_loop.simps, subst circle_walk.simps) simp
  next
    case True
    show ?thesis
      using True 1
      by (subst circle_loop.simps, subst circle_walk.simps) (simp add: Let_def)
  qed
qed

lemma circle_walk_unfold:
  assumes "x \<ge> y"
    and "y' = (if err \<le> 0 then y + 1 else y)"
    and "err1 = (if err \<le> 0 then err + (2 * y' + 1) else err)"
    and "x' = (if err1 > 0 then x - 1 else x)"
    and "err2 = (if err1 > 0 then err1 - (2 * x' + 1) else err1)"
  shows "circle_walk x y err =
    [(x, y), (y, x), (- y, x), (- x, y), (- x, - y), (- y, - x), (y, - x), (x, - y)] @
    circle_walk x' y' err2"
  using assms by (subst circle_walk.simps) (simp add: Let_def)

lemma eight_way_rot:
  fixes x y :: int
  assumes "(a, b) \<in> {(x, y), (y, x), (- y, x), (- x, y), (- x, - y), (- y, - x), (y, - x), (x, - y)}"
  shows "(- b, a) \<in> {(x, y), (y, x), (- y, x), (- x, y), (- x, - y), (- y, - x), (y, - x), (x, - y)}"
  using assms by (elim insertE emptyE; simp)

lemma circle_walk_rot:
  "(a, b) \<in> set (circle_walk x y err) \<Longrightarrow> (- b, a) \<in> set (circle_walk x y err)"
proof (induction x y err rule: circle_walk.induct)
  case (1 x y err)
  show ?case
  proof (cases "x \<ge> y")
    case False
    with "1.prems" show ?thesis
      by (subst (asm) circle_walk.simps) simp
  next
    case True
    define y' where "y' = (if err \<le> 0 then y + 1 else y)"
    define err1 where "err1 = (if err \<le> 0 then err + (2 * y' + 1) else err)"
    define x' where "x' = (if err1 > 0 then x - 1 else x)"
    define err2 where "err2 = (if err1 > 0 then err1 - (2 * x' + 1) else err1)"
    note u = circle_walk_unfold [OF True y'_def err1_def x'_def err2_def]
    note ih = "1.IH" [OF True y'_def err1_def x'_def err2_def]
    let ?pts = "[(x, y), (y, x), (- y, x), (- x, y), (- x, - y), (- y, - x), (y, - x), (x, - y)]"
    from "1.prems" have "(a, b) \<in> set ?pts \<union> set (circle_walk x' y' err2)"
      unfolding u set_append .
    then consider "(a, b) \<in> set ?pts" | "(a, b) \<in> set (circle_walk x' y' err2)"
      by (rule UnE)
    then show ?thesis
    proof cases
      case 1
      then have "(a, b) \<in> {(x, y), (y, x), (- y, x), (- x, y), (- x, - y), (- y, - x), (y, - x), (x, - y)}"
        by (simp only: list.set)
      then have "(- b, a) \<in> {(x, y), (y, x), (- y, x), (- x, y), (- x, - y), (- y, - x), (y, - x), (x, - y)}"
        by (rule eight_way_rot)
      then have "(- b, a) \<in> set ?pts"
        by (simp only: list.set)
      then show ?thesis unfolding u set_append by (rule UnI1)
    next
      case 2
      then have "(- b, a) \<in> set (circle_walk x' y' err2)" by (rule ih)
      then show ?thesis unfolding u set_append by (rule UnI2)
    qed
  qed
qed

lemma circle_walk_bound:
  "0 \<le> y \<Longrightarrow> x \<le> r \<Longrightarrow> (a, b) \<in> set (circle_walk x y err) \<Longrightarrow>
     \<bar>a\<bar> \<le> r \<and> \<bar>b\<bar> \<le> r"
proof (induction x y err rule: circle_walk.induct)
  case (1 x y err)
  show ?case
  proof (cases "x \<ge> y")
    case False
    with "1.prems" show ?thesis
      by (subst (asm) circle_walk.simps) simp
  next
    case True
    define y' where "y' = (if err \<le> 0 then y + 1 else y)"
    define err1 where "err1 = (if err \<le> 0 then err + (2 * y' + 1) else err)"
    define x' where "x' = (if err1 > 0 then x - 1 else x)"
    define err2 where "err2 = (if err1 > 0 then err1 - (2 * x' + 1) else err1)"
    note u = circle_walk_unfold [OF True y'_def err1_def x'_def err2_def]
    have mono: "0 \<le> y'" "x' \<le> r"
      using "1.prems"(1,2) by (simp_all add: y'_def x'_def)
    note ih = "1.IH" [OF True y'_def err1_def x'_def err2_def mono]
    let ?pts = "[(x, y), (y, x), (- y, x), (- x, y), (- x, - y), (- y, - x), (y, - x), (x, - y)]"
    from "1.prems"(3) have "(a, b) \<in> set ?pts \<union> set (circle_walk x' y' err2)"
      unfolding u set_append .
    then consider "(a, b) \<in> set ?pts" | "(a, b) \<in> set (circle_walk x' y' err2)"
      by (rule UnE)
    then show ?thesis
    proof cases
      case 1
      then have "(a, b) \<in> {(x, y), (y, x), (- y, x), (- x, y), (- x, - y), (- y, - x), (y, - x), (x, - y)}"
        by (simp only: list.set)
      then show ?thesis
        using True "1.prems"(1,2) by (elim insertE emptyE; simp)
    next
      case 2
      then show ?thesis by (rule ih)
    qed
  qed
qed

lemma line_loop_returns:
  assumes "line_loop steep x0 y0 x1 dx dy err ystep color = Some bus"
  shows "uint x1 \<noteq> 65535"
proof (rule line_loop.raw_induct
    [where P = "\<lambda>steep x0 y0 x1 dx dy err ystep color bus. uint x1 \<noteq> 65535", OF _ assms])
  fix loop :: "bool \<Rightarrow> u16 \<Rightarrow> u16 \<Rightarrow> u16 \<Rightarrow> i16 \<Rightarrow> i16 \<Rightarrow> i16 \<Rightarrow> i16 \<Rightarrow> u16 \<Rightarrow> bus option"
  fix steep and x0 y0 x1 :: u16 and dx dy err ystep :: i16 and color :: u16 and bus :: bus
  assume ih: "\<And>steep x0 y0 x1 dx dy err ystep color bus.
      loop steep x0 y0 x1 dx dy err ystep color = Some bus \<Longrightarrow> uint x1 \<noteq> 65535"
  assume body: "(if uint x0 \<le> uint x1
      then let px = if steep then tft_draw_pixel y0 x0 color else tft_draw_pixel x0 y0 color;
               err1 = to_i16 (sint err - sint dy);
               y0' = if sint err1 < 0 then to_u16 (uint y0 + sint ystep) else y0;
               err2 = if sint err1 < 0 then to_i16 (sint err1 + sint dx) else err1
           in Option.bind (loop steep (to_u16 (uint x0 + 1)) y0' x1 dx dy err2 ystep color)
               (\<lambda>rest. Some (px @ rest))
      else Some []) = Some bus"
  show "uint x1 \<noteq> 65535"
  proof (cases "uint x0 \<le> uint x1")
    case True
    with body obtain y0' err2 rest
      where "loop steep (to_u16 (uint x0 + 1)) y0' x1 dx dy err2 ystep color = Some rest"
      by (auto simp add: Let_def split: bind_splits)
    then show ?thesis by (rule ih)
  next
    case False
    moreover have "uint x0 < 65536"
      using uint_lt2p [of x0] by simp
    ultimately show ?thesis by linarith
  qed
qed

lemma draw_line_off_top_hangs: "tft_draw_line 0 0xFFFF 0 3 c = None"
proof (rule ccontr)
  assume "tft_draw_line 0 0xFFFF 0 3 c \<noteq> None"
  then obtain bus where "tft_draw_line 0 0xFFFF 0 3 c = Some bus"
    by auto
  then have "\<exists>dx dy err ystep. line_loop True 3 0 0xFFFF dx dy err ystep c = Some bus"
    by (auto simp add: tft_draw_line_def Let_def)
  then show False
    using line_loop_returns by fastforce
qed

lemma pixel_log_draw_words:
  "pixel_log (gc_run (concat (map (\<lambda>(x, y). tft_draw_pixel x y c) ws)) s) =
     pixel_log s @ map (\<lambda>(x, y). ((unat x, unat y), c))
       (filter (\<lambda>(x, y). uint x < 240 \<and> uint y < 240) ws)"
proof (induction ws arbitrary: s)
  case Nil
  then show ?case by (simp add: gc_run_Nil)
next
  case (Cons w ws)
  obtain x y where w: "w = (x, y)" by (cases w)
  show ?case
    by (simp add: w gc_run_append Cons pixel_log_draw_pixel)
qed

lemma plotted_draw_words:
  "plotted (concat (map (\<lambda>(x, y). tft_draw_pixel x y c) ws)) =
     (\<lambda>(x, y). (unat x, unat y)) ` {(x, y) \<in> set ws. uint x < 240 \<and> uint y < 240}"
  by (force simp add: plotted_def pixel_log_draw_words gc_power_on_def image_iff)

lemma circle_as_words:
  "tft_draw_circle x0 y0 r c = concat (map (\<lambda>(x, y). tft_draw_pixel x y c)
     (map (\<lambda>(a, b). (to_u16 (uint x0 + a), to_u16 (uint y0 + b))) (circle_walk (uint r) 0 0)))"
  by (simp add: tft_draw_circle_def circle_loop_walk map_map comp_def case_prod_unfold)

lemma to_u16_clip:
  assumes "- 65296 \<le> p" "p \<le> 65535"
  shows "uint (to_u16 p) < 240 \<longleftrightarrow> 0 \<le> p \<and> p < 240"
proof (cases "0 \<le> p")
  case True
  with assms show ?thesis by (simp add: uint_to_u16)
next
  case False
  have "to_u16 p = to_u16 (p + 65536)"
    by (simp add: to_u16_def)
  also have "uint \<dots> = p + 65536"
    using assms False by (intro uint_to_u16) simp_all
  finally show ?thesis
    using assms False by simp
qed

lemma plotted_at_circle:
  assumes "uint r \<le> uint x0 + 65296" "uint x0 + uint r \<le> 65535"
    and "uint r \<le> uint y0 + 65296" "uint y0 + uint r \<le> 65535"
  shows "plotted_at (tft_draw_circle x0 y0 r c) =
     {(p, q). (p - uint x0, q - uint y0) \<in> set (circle_walk (uint r) 0 0) \<and>
        0 \<le> p \<and> p < 240 \<and> 0 \<le> q \<and> q < 240}"
proof -
  let ?cx = "uint x0" and ?cy = "uint y0" and ?W = "set (circle_walk (uint r) 0 0)"
  have rng: "- 65296 \<le> ?cx + a \<and> ?cx + a \<le> 65535 \<and> - 65296 \<le> ?cy + b \<and> ?cy + b \<le> 65535"
    if "(a, b) \<in> ?W" for a b
  proof -
    have "\<bar>a\<bar> \<le> uint r \<and> \<bar>b\<bar> \<le> uint r"
      using that by (intro circle_walk_bound [of 0 "uint r" "uint r" a b 0]) simp_all
    then show ?thesis
      using assms by linarith
  qed
  have in_panel_iff: "uint (to_u16 (?cx + a)) < 240 \<and> uint (to_u16 (?cy + b)) < 240
      \<longleftrightarrow> 0 \<le> ?cx + a \<and> ?cx + a < 240 \<and> 0 \<le> ?cy + b \<and> ?cy + b < 240"
    if "(a, b) \<in> ?W" for a b
    using rng [OF that] by (simp add: to_u16_clip)
  have P: "plotted (tft_draw_circle x0 y0 r c) = (\<lambda>(x, y). (unat x, unat y)) `
      {(x, y) \<in> set (map (\<lambda>(a, b). (to_u16 (?cx + a), to_u16 (?cy + b))) (circle_walk (uint r) 0 0)).
        uint x < 240 \<and> uint y < 240}"
    by (simp only: circle_as_words plotted_draw_words)
  show ?thesis
  proof (rule set_eqI, clarify)
    fix p q :: int
    show "(p, q) \<in> plotted_at (tft_draw_circle x0 y0 r c) \<longleftrightarrow>
      (p, q) \<in> {(p, q). (p - ?cx, q - ?cy) \<in> ?W \<and> 0 \<le> p \<and> p < 240 \<and> 0 \<le> q \<and> q < 240}"
    proof
      assume "(p, q) \<in> plotted_at (tft_draw_circle x0 y0 r c)"
      then obtain a b where ab: "(a, b) \<in> ?W"
        "uint (to_u16 (?cx + a)) < 240 \<and> uint (to_u16 (?cy + b)) < 240"
        "p = int (unat (to_u16 (?cx + a)))" "q = int (unat (to_u16 (?cy + b)))"
        unfolding plotted_at_def P by auto
      from in_panel_iff [OF ab(1)] ab(2)
      have r: "0 \<le> ?cx + a" "?cx + a < 240" "0 \<le> ?cy + b" "?cy + b < 240"
        by simp_all
      then have "p = ?cx + a" "q = ?cy + b"
        using ab(3,4) by (simp_all add: uint_to_u16)
      with ab(1) r show "(p, q) \<in> {(p, q). (p - ?cx, q - ?cy) \<in> ?W \<and> 0 \<le> p \<and> p < 240 \<and> 0 \<le> q \<and> q < 240}"
        by simp
    next
      assume "(p, q) \<in> {(p, q). (p - ?cx, q - ?cy) \<in> ?W \<and> 0 \<le> p \<and> p < 240 \<and> 0 \<le> q \<and> q < 240}"
      then have w: "(p - ?cx, q - ?cy) \<in> ?W" and r: "0 \<le> p" "p < 240" "0 \<le> q" "q < 240"
        by simp_all
      have "uint (to_u16 p) < 240" "uint (to_u16 q) < 240"
        using r by (simp_all add: uint_to_u16)
      then have "(to_u16 p, to_u16 q) \<in> {(x, y) \<in> set (map (\<lambda>(a, b). (to_u16 (?cx + a), to_u16 (?cy + b)))
          (circle_walk (uint r) 0 0)). uint x < 240 \<and> uint y < 240}"
        using w by (force simp add: image_iff)
      then have "(unat (to_u16 p), unat (to_u16 q)) \<in> plotted (tft_draw_circle x0 y0 r c)"
        unfolding P by (force simp add: image_iff)
      then have "(int (unat (to_u16 p)), int (unat (to_u16 q))) \<in> plotted_at (tft_draw_circle x0 y0 r c)"
        unfolding plotted_at_def by (force simp add: image_iff)
      then show "(p, q) \<in> plotted_at (tft_draw_circle x0 y0 r c)"
        using r by (simp add: uint_to_u16)
    qed
  qed
qed

lemma circle_walk_first:
  "0 \<le> x \<Longrightarrow> (x, 0) \<in> set (circle_walk x 0 0) \<and> (- x, 0) \<in> set (circle_walk x 0 0)"
  by (subst circle_walk.simps, subst circle_walk.simps) simp

text \<open>
  Claim C6. For every centre, radius and colour such that the whole circle lies in the
  panel, the set of cells \<open>drawCircle\<close> writes is invariant under the rotation by a
  quarter turn about the centre: whenever the cell at offset \<open>(a, b)\<close> from the centre
  is written, so is the cell at offset \<open>(-b, a)\<close>.
\<close>

theorem drawCircle_rotation:
  assumes "uint r \<le> uint x0" "uint x0 + uint r < 240" "uint r \<le> uint y0" "uint y0 + uint r < 240"
  shows "(uint x0 + a, uint y0 + b) \<in> plotted_at (tft_draw_circle x0 y0 r color) \<longrightarrow>
     (uint x0 - b, uint y0 + a) \<in> plotted_at (tft_draw_circle x0 y0 r color)"
proof
  have c: "uint r \<le> uint x0 + 65296" "uint x0 + uint r \<le> 65535"
    "uint r \<le> uint y0 + 65296" "uint y0 + uint r \<le> 65535"
    using assms by linarith+
  note P = plotted_at_circle [OF c, of color]
  assume "(uint x0 + a, uint y0 + b) \<in> plotted_at (tft_draw_circle x0 y0 r color)"
  then have w: "(a, b) \<in> set (circle_walk (uint r) 0 0)"
    unfolding P by simp
  then have "(- b, a) \<in> set (circle_walk (uint r) 0 0)"
    by (rule circle_walk_rot)
  moreover have "\<bar>a\<bar> \<le> uint r \<and> \<bar>b\<bar> \<le> uint r"
    using w by (intro circle_walk_bound [of 0 "uint r" "uint r" a b 0]) simp_all
  ultimately show "(uint x0 - b, uint y0 + a) \<in> plotted_at (tft_draw_circle x0 y0 r color)"
    unfolding P using assms by auto
qed

theorem drawCircle_rotation_witness:
  "(13, 10) \<in> plotted_at (tft_draw_circle 10 10 3 0xFFFF) \<and>
   (10, 13) \<in> plotted_at (tft_draw_circle 10 10 3 0xFFFF)"
proof -
  have c: "uint (3 :: u16) \<le> uint (10 :: u16) + 65296" "uint (10 :: u16) + uint (3 :: u16) \<le> 65535"
    by simp_all
  have "(3, 0) \<in> set (circle_walk 3 0 0)"
    using circle_walk_first [of 3] by simp
  then have start: "(uint (10 :: u16) + 3, uint (10 :: u16) + 0) \<in> plotted_at (tft_draw_circle 10 10 3 0xFFFF)"
    unfolding plotted_at_circle [OF c c] by simp
  have h: "uint (3 :: u16) \<le> uint (10 :: u16)" "uint (10 :: u16) + uint (3 :: u16) < 240"
    by simp_all
  from drawCircle_rotation [OF h h, of 3 0 "0xFFFF"] start
  show ?thesis by simp
qed

text \<open>
  Claim C10, as amended. A coordinate computed as a negative integer \<open>v\<close> with
  \<open>v \<ge> -65296\<close> converts to the \<open>uint16_t\<close> value \<open>v + 65536\<close>, which is at least
  240, so \<open>drawPixel\<close> with it as column or as row performs no bus event. Consequently
  \<open>drawCircle\<close> writes exactly the points of its circle that lie in the panel, each at
  its own place, whenever no coordinate it computes leaves the range from \<open>-65296\<close> to
  \<open>65535\<close>: \<open>r \<le> x0 + 65296\<close> and \<open>x0 + r \<le> 65535\<close>, and the same for \<open>y0\<close>. The
  centre itself may lie off the panel. (Nothing is said of \<open>drawLine\<close>: its endpoints
  are \<open>uint16_t\<close> parameters, converted before the algorithm runs.)
\<close>

theorem negative_coordinate_clipped:
  assumes "- 65296 \<le> v" "v < 0"
    and "uint r \<le> uint x0 + 65296" "uint x0 + uint r \<le> 65535"
    and "uint r \<le> uint y0 + 65296" "uint y0 + uint r \<le> 65535"
  shows "240 \<le> uint (to_u16 v) \<and>
     tft_draw_pixel (to_u16 v) y color = [] \<and>
     tft_draw_pixel x (to_u16 v) color = [] \<and>
     plotted_at (tft_draw_circle x0 y0 r color) =
       {(p, q). (p - uint x0, q - uint y0) \<in> set (circle_walk (uint r) 0 0) \<and>
          0 \<le> p \<and> p < 240 \<and> 0 \<le> q \<and> q < 240}"
proof -
  have "\<not> uint (to_u16 v) < 240"
    using assms(1,2) to_u16_clip [of v] by simp
  then have "240 \<le> uint (to_u16 v)" by simp
  then show ?thesis
    by (simp add: tft_draw_pixel_def plotted_at_circle [OF assms(3-6)])
qed

theorem negative_coordinate_clipped_witness:
  "240 \<le> uint (to_u16 (- 1)) \<and>
   tft_draw_pixel (to_u16 (- 1)) 5 0xFFFF = [] \<and>
   tft_draw_pixel 5 (to_u16 (- 1)) 0xFFFF = [] \<and>
   plotted_at (tft_draw_circle 120 300 310 0xFFFF) =
     {(p, q). (p - 120, q - 300) \<in> set (circle_walk 310 0 0) \<and> 0 \<le> p \<and> p < 240 \<and> 0 \<le> q \<and> q < 240}"
proof -
  have h: "- 65296 \<le> (- 1 :: int)" "(- 1 :: int) < 0"
    "uint (310 :: u16) \<le> uint (120 :: u16) + 65296" "uint (120 :: u16) + uint (310 :: u16) \<le> 65535"
    "uint (310 :: u16) \<le> uint (300 :: u16) + 65296" "uint (300 :: u16) + uint (310 :: u16) \<le> 65535"
    by simp_all
  from negative_coordinate_clipped [OF h, of 5 "0xFFFF" 5]
  show ?thesis by simp
qed

text \<open>
  Claim C10 as stated fails. In \<open>tft_draw_circle(0, 0, 65535, c)\<close> the first call with a
  negative coordinate computes the column \<open>0 - 65535\<close>, which converts to 1: the pixel is
  not clipped but written at cell \<open>(1, 0)\<close>. And \<open>tft_draw_line(0, -1, 0, 3, c)\<close>, a
  vertical line that starts one row above the panel, receives \<open>y0 = 65535\<close>, swaps it
  into the loop bound and never returns.
\<close>

theorem negative_coordinate_wraps:
  "uint (0 :: u16) - 65535 < 0 \<and>
   uint (to_u16 (uint (0 :: u16) - 65535)) = 1 \<and>
   tft_draw_pixel (to_u16 (uint (0 :: u16) - 65535)) (to_u16 (uint (0 :: u16) + 0)) 0xFFFF
     = tft_fill_rect 1 0 1 1 0xFFFF \<and>
   (1, 0) \<in> plotted (tft_draw_circle 0 0 0xFFFF 0xFFFF) \<and>
   tft_draw_line 0 (to_u16 (- 1)) 0 3 0xFFFF = None"
proof -
  have conv: "to_u16 (- 65535) = 1" "to_u16 0 = 0" "to_u16 (- 1) = 0xFFFF"
    by (simp_all add: to_u16_def)
  have "(- 65535, 0) \<in> set (circle_walk 65535 0 0)"
    using circle_walk_first [of 65535] by simp
  then have "(to_u16 (uint (0 :: u16) + (- 65535)), to_u16 (uint (0 :: u16) + 0))
      \<in> set (map (\<lambda>(a, b). (to_u16 (uint (0 :: u16) + a), to_u16 (uint (0 :: u16) + b)))
          (circle_walk (uint (0xFFFF :: u16)) 0 0))"
    by (force simp add: image_iff)
  then have "(1, 0) \<in> {(x, y) \<in> set (map (\<lambda>(a, b). (to_u16 (uint (0 :: u16) + a), to_u16 (uint (0 :: u16) + b)))
          (circle_walk (uint (0xFFFF :: u16)) 0 0)). uint x < 240 \<and> uint y < 240}"
    by (simp add: conv)
  then have "(unat (1 :: u16), unat (0 :: u16)) \<in> plotted (tft_draw_circle 0 0 0xFFFF 0xFFFF)"
    unfolding circle_as_words plotted_draw_words by (rule image_eqI [rotated]) simp
  then have "(1, 0) \<in> plotted (tft_draw_circle 0 0 0xFFFF 0xFFFF)"
    by simp
  then show ?thesis
    by (simp add: conv tft_draw_pixel_def draw_line_off_top_hangs)
qed

section \<open>Glyphs outside the supported set\<close>

lemma string_loop_skip:
  assumes "\<not> supported_glyph ch" "ch \<noteq> CHR 0x00"
  shows "string_loop x y color sz pos (pre @ ch # post) = string_loop x y color sz pos (pre @ post)"
proof (induction pre arbitrary: pos)
  case Nil
  from assms show ?case
    by (auto simp add: supported_glyph_def)
next
  case (Cons c pre)
  then show ?case by simp
qed

lemma number_loop_skip:
  assumes "\<not> supported_glyph ch" "ch \<noteq> CHR 0x00"
  shows "number_loop x y color sz pos (pre @ ch # post) = number_loop x y color sz pos (pre @ post)"
proof (induction pre arbitrary: pos)
  case Nil
  from assms show ?case
    by (auto simp add: supported_glyph_def)
next
  case (Cons c pre)
  then show ?case by simp
qed


text \<open>
  Claim C8, as amended. For every character outside the supported glyph set (digits,
  decimal point, uppercase letters, space), the text renderer and the number renderer
  perform no bus event for that character and go on with the next character of the text
  without moving the pen: what follows the character is rendered from the pen position
  \<open>pos\<close> the character was met at, so the text is rendered exactly as the text without
  that character. The text renderer never faults, whatever the length of the text; the
  number renderer returns its events whenever the formatted text, of at most 19
  characters, fits its 20-byte buffer.
\<close>

theorem unsupported_glyph_skipped:
  assumes "\<not> supported_glyph ch" and "ch \<noteq> CHR 0x00"
  shows "tft_draw_string x y [ch] color sz = [] \<and>
     string_loop x y color sz pos (ch # post) = string_loop x y color sz pos post \<and>
     tft_draw_string x y (pre @ ch # post) color sz = tft_draw_string x y (pre @ post) color sz \<and>
     number_loop x y color sz pos [ch] = [] \<and>
     number_loop x y color sz pos (ch # post) = number_loop x y color sz pos post \<and>
     (sprintf_f decimals number = pre @ ch # post \<and> length (pre @ ch # post) < 20 \<longrightarrow>
        tft_draw_number sprintf_f x y number decimals color sz =
          Inr (number_loop x y color sz 0 (pre @ post)))"
proof -
  have s: "string_loop x y color sz p ([] @ ch # t) = string_loop x y color sz p ([] @ t)" for p t
    by (rule string_loop_skip [OF assms])
  have n: "number_loop x y color sz p ([] @ ch # t) = number_loop x y color sz p ([] @ t)" for p t
    by (rule number_loop_skip [OF assms])
  have "tft_draw_string x y [ch] color sz = []"
    using s [of 0 "[]"] by (simp add: tft_draw_string_def)
  moreover have "string_loop x y color sz pos (ch # post) = string_loop x y color sz pos post"
    using s [of pos post] by simp
  moreover have "tft_draw_string x y (pre @ ch # post) color sz = tft_draw_string x y (pre @ post) color sz"
    unfolding tft_draw_string_def by (rule string_loop_skip [OF assms])
  moreover have "number_loop x y color sz pos [ch] = []"
    using n [of pos "[]"] by simp
  moreover have "number_loop x y color sz pos (ch # post) = number_loop x y color sz pos post"
    using n [of pos post] by simp
  moreover have "sprintf_f decimals number = pre @ ch # post \<and> length (pre @ ch # post) < 20 \<longrightarrow>
        tft_draw_number sprintf_f x y number decimals color sz =
          Inr (number_loop x y color sz 0 (pre @ post))"
    by (simp add: tft_draw_number_def number_loop_skip [OF assms])
  ultimately show ?thesis
    by (intro conjI)
qed

theorem unsupported_glyph_skipped_witness:
  "tft_draw_string 0 0 ''-'' 0xFFFF 2 = [] \<and>
   string_loop 0 0 0xFFFF 2 1 ''-12.5'' = string_loop 0 0 0xFFFF 2 1 ''12.5'' \<and>
   tft_draw_string 0 0 ''-12.5'' 0xFFFF 2 = tft_draw_string 0 0 ''12.5'' 0xFFFF 2 \<and>
   number_loop 0 0 0xFFFF 2 1 ''-'' = [] \<and>
   number_loop 0 0 0xFFFF 2 1 ''-12.5'' = number_loop 0 0 0xFFFF 2 1 ''12.5'' \<and>
   tft_draw_number (\<lambda>decimals number. ''-12.5'') 0 0 (- 12.5 :: real) 1 0xFFFF 2 =
     Inr (number_loop 0 0 0xFFFF 2 0 ''12.5'') \<and>
   tft_draw_string 0 0 ''OUTSIDE TEMPERATURE-C'' 0xFFFF 2 =
     tft_draw_string 0 0 ''OUTSIDE TEMPERATUREC'' 0xFFFF 2"
proof -
  have h: "\<not> supported_glyph CHR ''-''" "CHR ''-'' \<noteq> CHR 0x00"
    by (simp_all add: supported_glyph_def)
  note a = unsupported_glyph_skipped [where sprintf_f = "\<lambda>decimals number. ''-12.5''"
      and decimals = 1 and number = "- 12.5 :: real" and pre = "[]" and ch = "CHR ''-''"
      and post = "''12.5''" and x = 0 and y = 0 and color = "0xFFFF" and sz = 2 and pos = 1, OF h]
  note b = unsupported_glyph_skipped [where sprintf_f = "\<lambda>decimals number. ''-12.5''"
      and decimals = 1 and number = "- 12.5 :: real" and pre = "''OUTSIDE TEMPERATURE''"
      and ch = "CHR ''-''" and post = "''C''" and x = 0 and y = 0 and color = "0xFFFF"
      and sz = 2 and pos = 1, OF h]
  have n: "''-12.5'' = [] @ CHR ''-'' # ''12.5'' \<and> length ([] @ CHR ''-'' # ''12.5'') < 20"
    by simp
  have "tft_draw_string 0 0 ''-'' 0xFFFF 2 = []"
    by (rule a [THEN conjunct1])
  moreover have "string_loop 0 0 0xFFFF 2 1 ''-12.5'' = string_loop 0 0 0xFFFF 2 1 ''12.5''"
    by (rule a [THEN conjunct2, THEN conjunct1])
  moreover have "tft_draw_string 0 0 ''-12.5'' 0xFFFF 2 = tft_draw_string 0 0 ''12.5'' 0xFFFF 2"
    using a [THEN conjunct2, THEN conjunct2, THEN conjunct1] by (simp only: append_Nil)
  moreover have "number_loop 0 0 0xFFFF 2 1 ''-'' = []"
    by (rule a [THEN conjunct2, THEN conjunct2, THEN conjunct2, THEN conjunct1])
  moreover have "number_loop 0 0 0xFFFF 2 1 ''-12.5'' = number_loop 0 0 0xFFFF 2 1 ''12.5''"
    by (rule a [THEN conjunct2, THEN conjunct2, THEN conjunct2, THEN conjunct2, THEN conjunct1])
  moreover have "tft_draw_number (\<lambda>decimals number. ''-12.5'') 0 0 (- 12.5 :: real) 1 0xFFFF 2 =
     Inr (number_loop 0 0 0xFFFF 2 0 ''12.5'')"
    using a [THEN conjunct2, THEN conjunct2, THEN conjunct2, THEN conjunct2, THEN conjunct2,
        THEN mp, OF n]
    by (simp only: append_Nil)
  moreover have "tft_draw_string 0 0 ''OUTSIDE TEMPERATURE-C'' 0xFFFF 2 =
     tft_draw_string 0 0 ''OUTSIDE TEMPERATUREC'' 0xFFFF 2"
    using b [THEN conjunct2, THEN conjunct2, THEN conjunct1]
    by (simp only: append_Cons append_Nil)
  ultimately show ?thesis
    by (intro conjI)
qed

text \<open>
  Claim C8 as stated fails. The character \<open>-\<close> is outside the supported set. For the
  \<open>float\<close> \<open>-1e19\<close> with no decimals \<open>sprintf\<close> writes the 20 characters
  \<open>-9999999980506447872\<close> and their NUL into the 20-byte buffer of \<open>tft_draw_number\<close>: the
  call faults. And the renderers do not advance to the next character position for a
  skipped character: in the text \<open>-A\<close> the block of \<open>A\<close> is drawn at column 0, the
  position of the skipped character, where after a space it is drawn at column 6.
\<close>

theorem unsupported_glyph_faults:
  "\<not> supported_glyph CHR ''-'' \<and>
   tft_draw_number (\<lambda>decimals number. ''-9999999980506447872'') 0 0
     (- 9999999980506447872 :: real) 0 0xFFFF 1 = Inl BufferOverflow \<and>
   tft_draw_string 0 0 ''-A'' 0xFFFF 1 = tft_fill_rect 0 0 4 7 0xFFFF \<and>
   tft_draw_string 0 0 '' A'' 0xFFFF 1 = tft_fill_rect 6 0 4 7 0xFFFF \<and>
   tft_fill_rect 0 0 4 7 0xFFFF \<noteq> tft_fill_rect 6 0 4 7 0xFFFF"
proof -
  have "\<not> supported_glyph CHR ''-''"
    by (simp add: supported_glyph_def)
  moreover have "tft_draw_number (\<lambda>decimals number. ''-9999999980506447872'') 0 0
     (- 9999999980506447872 :: real) 0 0xFFFF 1 = Inl BufferOverflow"
    by (simp add: tft_draw_number_def)
  moreover have "tft_draw_string 0 0 ''-A'' 0xFFFF 1 = tft_fill_rect 0 0 4 7 0xFFFF"
    by (simp add: tft_draw_string_def to_u16_def)
  moreover have "tft_draw_string 0 0 '' A'' 0xFFFF 1 = tft_fill_rect 6 0 4 7 0xFFFF"
    by (simp add: tft_draw_string_def to_u16_def)
  moreover have "tft_fill_rect 0 0 4 7 0xFFFF \<noteq> tft_fill_rect 6 0 4 7 0xFFFF"
    by (simp add: tft_fill_rect_unfold tft_set_addr_window_def tft_send_cmd_def
        tft_send_data_def to_u8_def to_u16_def)
  ultimately show ?thesis
    by (intro conjI)
qed

section \<open>Arcs across the 0/360 boundary\<close>

lemma arc_angle_loop_returns:
  assumes exact: "\<And>k :: int. \<bar>k\<bar> \<le> 16777216 \<Longrightarrow> rnd (of_int k) = of_int k"
    and "- 16777216 \<le> a" "b \<le> 16777214"
  shows "\<exists>calls. arc_angle_loop rnd ax ay cx cy rt (of_int a) (of_int b) color = Some calls"
  using assms(2)
proof (induction "nat (b + 2 - a)" arbitrary: a rule: less_induct)
  case less
  show ?case
  proof (cases "a \<le> b")
    case False
    then show ?thesis
      by (subst arc_angle_loop.simps) simp
  next
    case True
    have next_angle: "rnd (of_int a + 2) = of_int (a + 2)"
      using exact [of "a + 2"] True assms(3) less.prems by simp
    have "\<exists>calls. arc_angle_loop rnd ax ay cx cy rt (of_int (a + 2)) (of_int b) color = Some calls"
      using True assms(3) less.prems by (intro less.hyps) auto
    then show ?thesis
      using True by (subst arc_angle_loop.simps) (auto simp add: next_angle)
  qed
qed

lemma arc_thickness_loop_returns:
  assumes "\<And>rt. \<exists>calls. arc_angle_loop rnd ax ay cx cy rt s e color = Some calls"
  shows "\<exists>calls. arc_thickness_loop rnd ax ay cx cy r s e color th t = Some calls"
proof (induction "nat (th - t)" arbitrary: t rule: less_induct)
  case less
  show ?case
  proof (cases "t < th")
    case False
    then show ?thesis
      by (subst arc_thickness_loop.simps) simp
  next
    case True
    obtain ring where ring: "arc_angle_loop rnd ax ay cx cy (r - t) s e color = Some ring"
      using assms by blast
    have "\<exists>calls. arc_thickness_loop rnd ax ay cx cy r s e color th (t + 1) = Some calls"
      using True by (intro less.hyps) auto
    then show ?thesis
      using True ring by (subst arc_thickness_loop.simps) auto
  qed
qed

text \<open>
  Claim C7. For every centre, radius, colour and thickness, \<open>drawArc\<close> from 350 to 10
  degrees returns and makes exactly the calls of \<open>drawArc\<close> from 350 to 370 degrees; in
  general, whenever \<open>endDeg < startDeg\<close> the arc is drawn as the loops run with
  \<open>endDeg + 360\<close>, which is \<open>drawArc\<close> with that end angle whenever it is not below the
  start angle. The floating-point arithmetic is any rounding that is exact on the integers
  up to \<open>2^24\<close>, as single precision is.
\<close>

theorem drawArc_wraps:
  assumes exact: "\<And>k :: int. \<bar>k\<bar> \<le> 16777216 \<Longrightarrow> rnd (of_int k) = of_int k"
  shows "(\<exists>calls. drawArc rnd ax ay cx cy r 350 10 color th = Some calls \<and>
            drawArc rnd ax ay cx cy r 350 370 color th = Some calls) \<and>
         (e < s \<longrightarrow> drawArc rnd ax ay cx cy r s e color th =
            arc_thickness_loop rnd ax ay cx cy r s (rnd (e + 360)) color th 0) \<and>
         (e < s \<and> s \<le> rnd (e + 360) \<longrightarrow> drawArc rnd ax ay cx cy r s e color th =
            drawArc rnd ax ay cx cy r s (rnd (e + 360)) color th)"
proof -
  have r370: "rnd 370 = 370"
    using exact [of 370] by simp
  have "\<exists>calls. arc_angle_loop rnd ax ay cx cy rt (of_int 350) (of_int 370) color = Some calls" for rt
    by (rule arc_angle_loop_returns [OF exact]) simp_all
  then have "\<exists>calls. arc_angle_loop rnd ax ay cx cy rt 350 370 color = Some calls" for rt
    by simp
  then obtain calls where "arc_thickness_loop rnd ax ay cx cy r 350 370 color th 0 = Some calls"
    using arc_thickness_loop_returns [of rnd ax ay cx cy 350 370 color r th 0] by blast
  then have "drawArc rnd ax ay cx cy r 350 10 color th = Some calls \<and>
      drawArc rnd ax ay cx cy r 350 370 color th = Some calls"
    by (simp add: drawArc_def r370)
  then show ?thesis
    by (auto simp add: drawArc_def)
qed

theorem drawArc_wraps_witness:
  "(\<exists>calls. drawArc (\<lambda>v. v) exact_arc_x exact_arc_y 120 80 60 350 10 0x4208 3 = Some calls \<and>
      drawArc (\<lambda>v. v) exact_arc_x exact_arc_y 120 80 60 350 370 0x4208 3 = Some calls) \<and>
   drawArc (\<lambda>v. v) exact_arc_x exact_arc_y 120 80 60 350 10 0x4208 3 =
     arc_thickness_loop (\<lambda>v. v) exact_arc_x exact_arc_y 120 80 60 350 370 0x4208 3 0"
proof -
  have ex: "(\<lambda>v :: real. v) (of_int k) = of_int k" for k :: int
    by simp
  note w = drawArc_wraps [of "\<lambda>v. v" exact_arc_x exact_arc_y 120 80 60 "0x4208" 3 10 350, OF ex]
  have "(10 :: real) < 350" by simp
  with w [THEN conjunct2, THEN conjunct1]
  have "drawArc (\<lambda>v. v) exact_arc_x exact_arc_y 120 80 60 350 10 0x4208 3 =
     arc_thickness_loop (\<lambda>v. v) exact_arc_x exact_arc_y 120 80 60 350 (10 + 360) 0x4208 3 0"
    by (rule mp)
  then have "drawArc (\<lambda>v. v) exact_arc_x exact_arc_y 120 80 60 350 10 0x4208 3 =
     arc_thickness_loop (\<lambda>v. v) exact_arc_x exact_arc_y 120 80 60 350 370 0x4208 3 0"
    by simp
  with w [THEN conjunct1] show ?thesis by (rule conjI)
qed

end
